theory Spec2Isabelle
  imports Main "HOL-Library.AList"
begin

section \<open>Python values and dictionaries\<close>

text \<open>
  The compiler builds plain Python dictionaries and passes default values through
  unchanged, so one type of Python values serves for both. A float is its mantissa and
  binary exponent; \<open>PObject\<close> is any other object (a \<open>Decimal\<close>, a \<open>datetime\<close>,
  a callable), named by its \<open>repr\<close>. A dictionary keeps insertion order, as Python's does.
\<close>

datatype pyval =
    PNone
  | PBool bool
  | PInt int
  | PFloat int int
  | PStr string
  | PList "pyval list"
  | PTuple "pyval list"
  | PDict "(string \<times> pyval) list"
  | PEnumMember string string pyval
  | PObject string

type_synonym pydict = "(string \<times> pyval) list"

text \<open>\<open>d[k] = v\<close>: an existing key keeps its position, a new key goes last.\<close>

fun dict_set :: "pydict \<Rightarrow> string \<Rightarrow> pyval \<Rightarrow> pydict" where
  "dict_set [] k v = [(k, v)]"
| "dict_set ((k', v') # d) k v =
     (if k' = k then (k, v) # d else (k', v') # dict_set d k v)"

text \<open>\<open>{**d, **e}\<close>: the entries of \<open>e\<close> are stored into \<open>d\<close> from left to right.\<close>

fun dict_merge :: "pydict \<Rightarrow> pydict \<Rightarrow> pydict" where
  "dict_merge d [] = d"
| "dict_merge d ((k, v) # e) = dict_merge (dict_set d k v) e"

definition dict_get :: "pydict \<Rightarrow> string \<Rightarrow> pyval option" where
  "dict_get d k = map_of d k"

definition dict_keys :: "pydict \<Rightarrow> string list" where
  "dict_keys d = map fst d"

text \<open>\<open>d.pop(k)\<close>, used only where the key is present.\<close>

definition dict_pop :: "pydict \<Rightarrow> string \<Rightarrow> pydict" where
  "dict_pop d k = filter (\<lambda>kv. fst kv \<noteq> k) d"

section \<open>Metadata: \<open>SchemaAnnotation\<close>\<close>

datatype number = NumInt int | NumFloat int int | NumOther string

fun number_val :: "number \<Rightarrow> pyval" where
  "number_val (NumInt i) = PInt i"
| "number_val (NumFloat m e) = PFloat m e"
| "number_val (NumOther r) = PObject r"

record schema_annotation =
  title :: "string option"
  description :: "string option"
  examples :: "pyval list option"
  deprecated :: "bool option"
  min_length :: "int option"
  max_length :: "int option"
  pattern :: "string option"
  format :: "string option"
  minimum :: "number option"
  maximum :: "number option"
  exclusive_minimum :: "number option"
  exclusive_maximum :: "number option"
  multiple_of :: "number option"
  min_items :: "int option"
  max_items :: "int option"
  unique_items :: "bool option"

text \<open>\<open>SchemaAnnotation()\<close>: every field at its default \<open>None\<close>.\<close>

definition SchemaAnnotation :: schema_annotation where
  "SchemaAnnotation =
     \<lparr>title = None, description = None, examples = None, deprecated = None,
      min_length = None, max_length = None, pattern = None, format = None,
      minimum = None, maximum = None, exclusive_minimum = None,
      exclusive_maximum = None, multiple_of = None,
      min_items = None, max_items = None, unique_items = None\<rparr>"

text \<open>An optional field as the Python value it holds: \<open>None\<close> when absent.\<close>

fun opt :: "('a \<Rightarrow> pyval) \<Rightarrow> 'a option \<Rightarrow> pyval" where
  "opt f None = PNone"
| "opt f (Some x) = f x"

text \<open>\<open>dataclasses.asdict(self)\<close>: the fields in declaration order under their Python names.\<close>

definition asdict :: "schema_annotation \<Rightarrow> pydict" where
  "asdict a =
     [(''title'', opt PStr (title a)),
      (''description'', opt PStr (description a)),
      (''examples'', opt PList (examples a)),
      (''deprecated'', opt PBool (deprecated a)),
      (''min_length'', opt PInt (min_length a)),
      (''max_length'', opt PInt (max_length a)),
      (''pattern'', opt PStr (pattern a)),
      (''format'', opt PStr (format a)),
      (''minimum'', opt number_val (minimum a)),
      (''maximum'', opt number_val (maximum a)),
      (''exclusive_minimum'', opt number_val (exclusive_minimum a)),
      (''exclusive_maximum'', opt number_val (exclusive_maximum a)),
      (''multiple_of'', opt number_val (multiple_of a)),
      (''min_items'', opt PInt (min_items a)),
      (''max_items'', opt PInt (max_items a)),
      (''unique_items'', opt PBool (unique_items a))]"

text \<open>\<open>key_map.get(k, k)\<close>\<close>

definition key_map :: "string \<Rightarrow> string" where
  "key_map k =
     (if k = ''min_length'' then ''minLength''
      else if k = ''max_length'' then ''maxLength''
      else if k = ''exclusive_minimum'' then ''exclusiveMinimum''
      else if k = ''exclusive_maximum'' then ''exclusiveMaximum''
      else if k = ''multiple_of'' then ''multipleOf''
      else if k = ''min_items'' then ''minItems''
      else if k = ''max_items'' then ''maxItems''
      else if k = ''unique_items'' then ''uniqueItems''
      else k)"

text \<open>\<open>SchemaAnnotation.schema\<close>: rename the keys, drop the fields that are \<open>None\<close>.\<close>

definition schema :: "schema_annotation \<Rightarrow> pydict" where
  "schema a =
     map (\<lambda>kv. (key_map (fst kv), snd kv)) (filter (\<lambda>kv. snd kv \<noteq> PNone) (asdict a))"

section \<open>Type descriptors\<close>

text \<open>
  What \<open>get_field_schema\<close> can be handed. A dataclass is referred to by its identity
  (a number) and looked up in the table of classes, so that classes can refer to each
  other and to themselves. Generic containers carry their argument list as
  \<open>typing.get_args\<close> returns it; \<open>TEllipsis\<close> is the \<open>...\<close> of \<open>tuple[int, ...]\<close>.
  \<open>TAnnotated base payloads\<close> has the arguments \<open>base\<close> followed by \<open>payloads\<close>.
  \<open>TEnum name number members\<close> is a subclass of \<open>enum.Enum\<close>; \<open>number\<close> says that it
  is a subclass of \<open>numbers.Number\<close> too, as an \<open>IntEnum\<close> is.
\<close>

datatype ty =
    TDataclass nat
  | TUnion "ty list"
  | TLiteral "pyval list"
  | TAnnotated ty "schema_annotation list"
  | TDict "ty list"
  | TList "ty list"
  | TTuple "ty list"
  | TSet "ty list"
  | TNone
  | TStr
  | TBool
  | TInt
  | TNumber
  | TEnum string bool "(string \<times> pyval) list"
  | TDatetime
  | TDate
  | TEllipsis
  | TUnsupported string

text \<open>\<open>dataclasses.MISSING\<close> against a value, which may itself be \<open>None\<close>.\<close>

datatype default = MISSING | Default pyval

record field =
  field_name :: string
  field_type :: ty
  field_default :: default
  field_default_factory :: default

text \<open>
  A dataclass: its \<open>__name__\<close>, its fields, and its nested \<open>SchemaConfig\<close>:
  \<open>None\<close> when the class has none, \<open>Some None\<close> when it has one without an
  \<open>annotation\<close> attribute.
\<close>

record dataclass =
  dc_name :: string
  schema_config :: "schema_annotation option option"
  dc_fields :: "field list"

type_synonym classes = "nat \<rightharpoonup> dataclass"

section \<open>Results, errors and the session state\<close>

datatype error = AssertionError | NotImplementedError | TypeError | AttributeError | NameError

text \<open>
  A call either raises, returns, or is still recursing when the fuel is spent.
\<close>

datatype 'a result = OutOfFuel | Raise error | Ok 'a

fun bind :: "'a result \<Rightarrow> ('a \<Rightarrow> 'b result) \<Rightarrow> 'b result" where
  "bind OutOfFuel f = OutOfFuel"
| "bind (Raise e) f = Raise e"
| "bind (Ok x) f = f x"

text \<open>The attributes \<open>_GetSchema.__call__\<close> sets on \<open>self\<close>.\<close>

record session =
  root :: nat
  seen_root :: bool
  defs :: pydict

type_synonym 'a compile = "session \<Rightarrow> ('a \<times> session) result"

type_synonym field_compiler = "ty \<Rightarrow> default \<Rightarrow> schema_annotation \<Rightarrow> pydict compile"

section \<open>The compiler\<close>

text \<open>
  Each method of \<open>_GetSchema\<close> is a definition of the same name. The methods call
  \<open>self.get_field_schema\<close> recursively; here that callee is the parameter \<open>gfs\<close>, and
  \<open>get_field_schema\<close> below ties the knot, spending one unit of fuel per call.
\<close>

text \<open>The comprehension \<open>[self.get_field_schema(arg, _MISSING, SchemaAnnotation()) for arg in args]\<close>.\<close>

fun compile_args :: "field_compiler \<Rightarrow> ty list \<Rightarrow> (pyval list) compile" where
  "compile_args gfs [] st = Ok ([], st)"
| "compile_args gfs (arg # args) st =
     bind (gfs arg MISSING SchemaAnnotation st) (\<lambda>(s, st1).
     bind (compile_args gfs args st1) (\<lambda>(ss, st2).
     Ok (PDict s # ss, st2)))"

text \<open>The loop over \<open>dataclasses.fields(dc)\<close> in \<open>create_dc_schema\<close>.\<close>

definition field_is_optional :: "field \<Rightarrow> bool" where
  "field_is_optional f =
     (if field_default f \<noteq> MISSING then True else field_default_factory f \<noteq> MISSING)"

fun create_dc_fields ::
  "field_compiler \<Rightarrow> field list \<Rightarrow> pydict \<Rightarrow> pyval list \<Rightarrow> (pydict \<times> pyval list) compile" where
  "create_dc_fields gfs [] properties required st = Ok ((properties, required), st)"
| "create_dc_fields gfs (f # fs) properties required st =
     bind (gfs (field_type f) (field_default f) SchemaAnnotation st) (\<lambda>(s, st1).
     create_dc_fields gfs fs
       (dict_set properties (field_name f) (PDict s))
       (if \<not> field_is_optional f then required @ [PStr (field_name f)] else required)
       st1)"

text \<open>The annotation of the nested \<open>SchemaConfig\<close>, when the class has one:
  \<open>getattr(dc.SchemaConfig, "annotation", SchemaAnnotation())\<close>.\<close>

definition config_annotation :: "dataclass \<Rightarrow> schema_annotation" where
  "config_annotation dc =
     (case schema_config dc of
        Some cfg \<Rightarrow> (case cfg of Some a \<Rightarrow> a | None \<Rightarrow> SchemaAnnotation)
      | None \<Rightarrow> SchemaAnnotation)"

definition create_dc_schema :: "field_compiler \<Rightarrow> dataclass \<Rightarrow> pydict compile" where
  "create_dc_schema gfs dc st =
     (let annotation = config_annotation dc;
          schema0 = dict_merge [(''type'', PStr ''object''), (''title'', PStr (dc_name dc))]
                      (schema annotation)
      in bind (create_dc_fields gfs (dc_fields dc) [] [] st) (\<lambda>((properties, required), st1).
         let schema1 = dict_merge schema0
                         [(''properties'', PDict properties), (''required'', PList required)]
         in Ok (if required = [] then dict_pop schema1 ''required'' else schema1, st1)))"

definition ref_fragment :: "string \<Rightarrow> pydict" where
  "ref_fragment target = [(''allOf'', PList [PDict [(''$ref'', PStr target)]])]"

definition get_dc_schema ::
  "field_compiler \<Rightarrow> classes \<Rightarrow> nat \<Rightarrow> schema_annotation \<Rightarrow> pydict compile" where
  "get_dc_schema gfs cls dc annotation st =
     (case cls dc of
        None \<Rightarrow> Raise NameError
      | Some d \<Rightarrow>
          if dc = root st then
            if seen_root st then Ok (dict_merge (ref_fragment ''#'') (schema annotation), st)
            else create_dc_schema gfs d (st\<lparr>seen_root := True\<rparr>)
          else
            bind (if dict_get (defs st) (dc_name d) = None
                  then bind (create_dc_schema gfs d st) (\<lambda>(s, st1).
                         Ok ((), st1\<lparr>defs := dict_set (defs st1) (dc_name d) (PDict s)\<rparr>))
                  else Ok ((), st)) (\<lambda>(u, st2).
            Ok (dict_merge (ref_fragment (''#/$defs/'' @ dc_name d)) (schema annotation), st2)))"

text \<open>The optional \<open>"default"\<close> entry the leaf methods put after the fixed keys.\<close>

fun default_entry :: "default \<Rightarrow> pydict" where
  "default_entry MISSING = []"
| "default_entry (Default v) = [(''default'', v)]"

definition get_union_schema ::
  "field_compiler \<Rightarrow> ty list \<Rightarrow> default \<Rightarrow> schema_annotation \<Rightarrow> pydict compile" where
  "get_union_schema gfs args dflt annotation st =
     bind (compile_args gfs args st) (\<lambda>(ss, st1).
     Ok (dict_merge (dict_merge [(''anyOf'', PList ss)] (default_entry dflt))
           (schema annotation), st1))"

definition get_literal_schema ::
  "pyval list \<Rightarrow> default \<Rightarrow> schema_annotation \<Rightarrow> pydict compile" where
  "get_literal_schema args dflt annotation st =
     (let schema0 = dict_merge (default_entry dflt) (schema annotation)
      in Ok (dict_merge [(''enum'', PList args)] schema0, st))"

definition get_dict_schema ::
  "field_compiler \<Rightarrow> ty list \<Rightarrow> schema_annotation \<Rightarrow> pydict compile" where
  "get_dict_schema gfs args annotation st =
     (if length args \<noteq> 0 \<and> length args \<noteq> 2 then Raise AssertionError
      else if args \<noteq> [] then
        if hd args \<noteq> TStr then Raise AssertionError
        else bind (gfs (args ! 1) MISSING SchemaAnnotation st) (\<lambda>(s, st1).
             Ok (dict_merge [(''type'', PStr ''object''), (''additionalProperties'', PDict s)]
                   (schema annotation), st1))
      else Ok (dict_merge [(''type'', PStr ''object'')] (schema annotation), st))"

definition get_list_schema ::
  "field_compiler \<Rightarrow> ty list \<Rightarrow> schema_annotation \<Rightarrow> pydict compile" where
  "get_list_schema gfs args annotation st =
     (if length args \<noteq> 0 \<and> length args \<noteq> 1 then Raise AssertionError
      else if args \<noteq> [] then
        bind (gfs (hd args) MISSING SchemaAnnotation st) (\<lambda>(s, st1).
        Ok (dict_merge [(''type'', PStr ''array''), (''items'', PDict s)]
              (schema annotation), st1))
      else Ok (dict_merge [(''type'', PStr ''array'')] (schema annotation), st))"

text \<open>\<open>list(default)\<close>: a tuple or list gives its items, a string its characters, a
  dictionary its keys; anything else is not iterable.\<close>

fun py_list :: "pyval \<Rightarrow> error + pyval" where
  "py_list (PTuple xs) = Inr (PList xs)"
| "py_list (PList xs) = Inr (PList xs)"
| "py_list (PStr s) = Inr (PList (map (\<lambda>c. PStr [c]) s))"
| "py_list (PDict d) = Inr (PList (map (\<lambda>kv. PStr (fst kv)) d))"
| "py_list v = Inl TypeError"

definition get_tuple_schema ::
  "field_compiler \<Rightarrow> ty list \<Rightarrow> default \<Rightarrow> schema_annotation \<Rightarrow> pydict compile" where
  "get_tuple_schema gfs args dflt annotation st =
     bind (case dflt of
             MISSING \<Rightarrow> Ok (schema annotation)
           | Default v \<Rightarrow> (case py_list v of
                             Inl e \<Rightarrow> Raise e
                           | Inr l \<Rightarrow> Ok (dict_merge [(''default'', l)] (schema annotation))))
     (\<lambda>schema0.
       if args \<noteq> [] \<and> length args = 2 \<and> args ! 1 = TEllipsis then
         bind (gfs (hd args) MISSING SchemaAnnotation st) (\<lambda>(s, st1).
         Ok (dict_merge [(''type'', PStr ''array''), (''items'', PDict s)] schema0, st1))
       else if args \<noteq> [] then
         bind (compile_args gfs args st) (\<lambda>(ss, st1).
         Ok (dict_merge [(''type'', PStr ''array''), (''prefixItems'', PList ss),
                         (''minItems'', PInt (int (length args))),
                         (''maxItems'', PInt (int (length args)))] schema0, st1))
       else Ok (dict_merge [(''type'', PStr ''array'')] schema0, st))"

definition get_set_schema ::
  "field_compiler \<Rightarrow> ty list \<Rightarrow> schema_annotation \<Rightarrow> pydict compile" where
  "get_set_schema gfs args annotation st =
     (if length args \<noteq> 0 \<and> length args \<noteq> 1 then Raise AssertionError
      else if args \<noteq> [] then
        bind (gfs (hd args) MISSING SchemaAnnotation st) (\<lambda>(s, st1).
        Ok (dict_merge [(''type'', PStr ''array''), (''items'', PDict s),
                        (''uniqueItems'', PBool True)] (schema annotation), st1))
      else Ok (dict_merge [(''type'', PStr ''array''), (''uniqueItems'', PBool True)]
                 (schema annotation), st))"

text \<open>\<open>get_none_schema\<close>, \<open>get_str_schema\<close>, \<open>get_bool_schema\<close>, \<open>get_int_schema\<close> and
  \<open>get_number_schema\<close> differ only in the type name.\<close>

definition get_none_schema :: "default \<Rightarrow> schema_annotation \<Rightarrow> pydict compile" where
  "get_none_schema dflt annotation st =
     Ok (dict_merge (dict_merge [(''type'', PStr ''null'')] (default_entry dflt))
           (schema annotation), st)"

definition get_str_schema :: "default \<Rightarrow> schema_annotation \<Rightarrow> pydict compile" where
  "get_str_schema dflt annotation st =
     Ok (dict_merge (dict_merge [(''type'', PStr ''string'')] (default_entry dflt))
           (schema annotation), st)"

definition get_bool_schema :: "default \<Rightarrow> schema_annotation \<Rightarrow> pydict compile" where
  "get_bool_schema dflt annotation st =
     Ok (dict_merge (dict_merge [(''type'', PStr ''boolean'')] (default_entry dflt))
           (schema annotation), st)"

definition get_int_schema :: "default \<Rightarrow> schema_annotation \<Rightarrow> pydict compile" where
  "get_int_schema dflt annotation st =
     Ok (dict_merge (dict_merge [(''type'', PStr ''integer'')] (default_entry dflt))
           (schema annotation), st)"

definition get_number_schema :: "default \<Rightarrow> schema_annotation \<Rightarrow> pydict compile" where
  "get_number_schema dflt annotation st =
     Ok (dict_merge (dict_merge [(''type'', PStr ''number'')] (default_entry dflt))
           (schema annotation), st)"

text \<open>\<open>default.value\<close>: only an enumeration member has the attribute.\<close>

fun member_value :: "pyval \<Rightarrow> error + pyval" where
  "member_value (PEnumMember cls nm v) = Inr v"
| "member_value v = Inl AttributeError"

definition get_enum_schema ::
  "string \<Rightarrow> (string \<times> pyval) list \<Rightarrow> default \<Rightarrow> schema_annotation \<Rightarrow> pydict compile" where
  "get_enum_schema name members dflt annotation st =
     (let st1 = (if dict_get (defs st) name = None
                 then st\<lparr>defs := dict_set (defs st) name
                        (PDict [(''title'', PStr name), (''enum'', PList (map snd members))])\<rparr>
                 else st)
      in case dflt of
           MISSING \<Rightarrow>
             Ok (dict_merge (ref_fragment (''#/$defs/'' @ name)) (schema annotation), st1)
         | Default v \<Rightarrow>
             (case member_value v of
                Inl e \<Rightarrow> Raise e
              | Inr x \<Rightarrow>
                  Ok (dict_merge (dict_merge (ref_fragment (''#/$defs/'' @ name))
                        [(''default'', x)]) (schema annotation), st1)))"

definition get_annotated_schema ::
  "field_compiler \<Rightarrow> ty \<Rightarrow> schema_annotation list \<Rightarrow> default \<Rightarrow> pydict compile" where
  "get_annotated_schema gfs base payloads dflt st =
     (if 1 + length payloads \<noteq> 2 then Raise AssertionError
      else gfs base dflt (hd payloads) st)"

definition get_datetime_schema :: "schema_annotation \<Rightarrow> pydict compile" where
  "get_datetime_schema annotation st =
     Ok (dict_merge [(''type'', PStr ''string''), (''format'', PStr ''date-time'')]
           (schema annotation), st)"

definition get_date_schema :: "schema_annotation \<Rightarrow> pydict compile" where
  "get_date_schema annotation st =
     Ok (dict_merge [(''type'', PStr ''string''), (''format'', PStr ''date'')]
           (schema annotation), st)"

primrec get_field_schema :: "nat \<Rightarrow> classes \<Rightarrow> field_compiler" where
  "get_field_schema 0 cls type' dflt annotation st = OutOfFuel"
| "get_field_schema (Suc n) cls type' dflt annotation st =
     (case type' of
        TDataclass dc \<Rightarrow> get_dc_schema (get_field_schema n cls) cls dc annotation st
      | TUnion args \<Rightarrow> get_union_schema (get_field_schema n cls) args dflt annotation st
      | TLiteral args \<Rightarrow> get_literal_schema args dflt annotation st
      | TAnnotated base payloads \<Rightarrow>
          get_annotated_schema (get_field_schema n cls) base payloads dflt st
      | TDict args \<Rightarrow> get_dict_schema (get_field_schema n cls) args annotation st
      | TList args \<Rightarrow> get_list_schema (get_field_schema n cls) args annotation st
      | TTuple args \<Rightarrow> get_tuple_schema (get_field_schema n cls) args dflt annotation st
      | TSet args \<Rightarrow> get_set_schema (get_field_schema n cls) args annotation st
      | TNone \<Rightarrow> get_none_schema dflt annotation st
      | TStr \<Rightarrow> get_str_schema dflt annotation st
      | TBool \<Rightarrow> get_bool_schema dflt annotation st
      | TInt \<Rightarrow> get_int_schema dflt annotation st
      | TNumber \<Rightarrow> get_number_schema dflt annotation st
      | TEnum name number members \<Rightarrow>
          if number then get_number_schema dflt annotation st
          else get_enum_schema name members dflt annotation st
      | TDatetime \<Rightarrow> get_datetime_schema annotation st
      | TDate \<Rightarrow> get_date_schema annotation st
      | TEllipsis \<Rightarrow> Raise TypeError
      | TUnsupported name \<Rightarrow> Raise NotImplementedError)"

text \<open>\<open>_GetSchema.__call__\<close>, with a fresh session for every call.\<close>

definition get_schema :: "nat \<Rightarrow> classes \<Rightarrow> nat \<Rightarrow> pydict result" where
  "get_schema fuel cls dc =
     bind (get_dc_schema (get_field_schema fuel cls) cls dc SchemaAnnotation
             \<lparr>root = dc, seen_root = False, defs = []\<rparr>) (\<lambda>(s, st).
     let s1 = (if defs st \<noteq> [] then dict_set s ''$defs'' (PDict (defs st)) else s)
     in Ok (dict_merge
              [(''$schema'', PStr ''https://json-schema.org/draft/2020-12/schema'')] s1))"

section \<open>The free function \<open>annotation\<close> of \<open>dataclass_schema\<close>\<close>

text \<open>
  The older module builds the metadata with a function that returns \<open>json.dumps\<close> of
  the keywords, and every method reads it back with \<open>json.loads\<close>. The text in between
  is taken as the JSON value it denotes. \<open>json.dumps\<close> writes a tuple as an array and
  raises \<open>TypeError\<close> on an object it cannot serialise.
\<close>

datatype json =
    JNull
  | JBool bool
  | JInt int
  | JFloat int int
  | JStr string
  | JArr "json list"
  | JObj "(string \<times> json) list"

text \<open>The results for a list of items, or the first error.\<close>

fun sequence :: "(error + 'a) list \<Rightarrow> error + 'a list" where
  "sequence [] = Inr []"
| "sequence (Inl e # rs) = Inl e"
| "sequence (Inr x # rs) = (case sequence rs of Inl e \<Rightarrow> Inl e | Inr xs \<Rightarrow> Inr (x # xs))"

fun json_dumps :: "pyval \<Rightarrow> error + json" where
  "json_dumps PNone = Inr JNull"
| "json_dumps (PBool b) = Inr (JBool b)"
| "json_dumps (PInt i) = Inr (JInt i)"
| "json_dumps (PFloat m e) = Inr (JFloat m e)"
| "json_dumps (PStr s) = Inr (JStr s)"
| "json_dumps (PList xs) =
     (case sequence (map json_dumps xs) of Inl e \<Rightarrow> Inl e | Inr js \<Rightarrow> Inr (JArr js))"
| "json_dumps (PTuple xs) =
     (case sequence (map json_dumps xs) of Inl e \<Rightarrow> Inl e | Inr js \<Rightarrow> Inr (JArr js))"
| "json_dumps (PDict d) =
     (case sequence (map (\<lambda>(k, v). case json_dumps v of Inl e \<Rightarrow> Inl e | Inr j \<Rightarrow> Inr (k, j)) d) of
        Inl e \<Rightarrow> Inl e | Inr js \<Rightarrow> Inr (JObj js))"
| "json_dumps (PEnumMember c n v) = Inl TypeError"
| "json_dumps (PObject r) = Inl TypeError"

fun json_loads :: "json \<Rightarrow> pyval" where
  "json_loads JNull = PNone"
| "json_loads (JBool b) = PBool b"
| "json_loads (JInt i) = PInt i"
| "json_loads (JFloat m e) = PFloat m e"
| "json_loads (JStr s) = PStr s"
| "json_loads (JArr js) = PList (map json_loads js)"
| "json_loads (JObj d) = PDict (map (\<lambda>(k, j). (k, json_loads j)) d)"

text \<open>The dictionary literal \<open>extra\<close> of \<open>annotation\<close>, before the values that are
  \<open>None\<close> are dropped; \<open>format_\<close> is the parameter for the key \<open>format\<close>.\<close>

definition annotation_extra ::
  "string option \<Rightarrow> string option \<Rightarrow> pyval list option \<Rightarrow> bool option \<Rightarrow>
   int option \<Rightarrow> int option \<Rightarrow> string option \<Rightarrow> string option \<Rightarrow>
   number option \<Rightarrow> number option \<Rightarrow> number option \<Rightarrow> number option \<Rightarrow>
   number option \<Rightarrow> pydict" where
  "annotation_extra title' description' examples' deprecated' min_length' max_length'
     pattern' format' minimum' maximum' exclusive_minimum' exclusive_maximum' multiple_of' =
     [(''title'', opt PStr title'),
      (''description'', opt PStr description'),
      (''examples'', opt PList examples'),
      (''deprecated'', opt PBool deprecated'),
      (''minLength'', opt PInt min_length'),
      (''maxLength'', opt PInt max_length'),
      (''pattern'', opt PStr pattern'),
      (''format'', opt PStr format'),
      (''minimum'', opt number_val minimum'),
      (''maximum'', opt number_val maximum'),
      (''exclusiveMinimum'', opt number_val exclusive_minimum'),
      (''exclusiveMaximum'', opt number_val exclusive_maximum'),
      (''multipleOf'', opt number_val multiple_of')]"

definition annotation ::
  "string option \<Rightarrow> string option \<Rightarrow> pyval list option \<Rightarrow> bool option \<Rightarrow>
   int option \<Rightarrow> int option \<Rightarrow> string option \<Rightarrow> string option \<Rightarrow>
   number option \<Rightarrow> number option \<Rightarrow> number option \<Rightarrow> number option \<Rightarrow>
   number option \<Rightarrow> error + json" where
  "annotation title' description' examples' deprecated' min_length' max_length'
     pattern' format' minimum' maximum' exclusive_minimum' exclusive_maximum' multiple_of' =
     (let extra = annotation_extra title' description' examples' deprecated' min_length'
                    max_length' pattern' format' minimum' maximum' exclusive_minimum'
                    exclusive_maximum' multiple_of';
          extra1 = filter (\<lambda>kv. snd kv \<noteq> PNone) extra
      in json_dumps (PDict extra1))"

text \<open>\<open>json.loads(extra) if extra else {}\<close>, at the head of every method of the older
  module.\<close>

definition load_extra :: "json option \<Rightarrow> pyval" where
  "load_extra extra = (case extra of None \<Rightarrow> PDict [] | Some j \<Rightarrow> json_loads j)"

text \<open>The values \<open>json.dumps\<close> and \<open>json.loads\<close> hand back unchanged, and the numbers
  among them.\<close>

fun json_value :: "pyval \<Rightarrow> bool" where
  "json_value (PList xs) = list_all json_value xs"
| "json_value (PDict d) = list_all (\<lambda>(k, v). json_value v) d"
| "json_value (PTuple xs) = False"
| "json_value (PEnumMember c n v) = False"
| "json_value (PObject r) = False"
| "json_value v = True"

fun json_number :: "number \<Rightarrow> bool" where
  "json_number (NumOther r) = False"
| "json_number n = True"

section \<open>Auxiliary definitions and example inputs\<close>

text \<open>The object fragment \<open>create_dc_schema\<close> has built when its loop ends, before
  an empty \<open>required\<close> is popped.\<close>

definition object_schema :: "dataclass \<Rightarrow> pydict \<Rightarrow> pyval list \<Rightarrow> pydict" where
  "object_schema dc props req =
     dict_merge
       (dict_merge [(''type'', PStr ''object''), (''title'', PStr (dc_name dc))]
          (schema (config_annotation dc)))
       [(''properties'', PDict props), (''required'', PList req)]"

text \<open>
  Example inputs. \<open>Outer\<close> has a field of type \<open>Node\<close>, and \<open>Node\<close> a field of
  its own type:
  \<^verbatim>\<open>
  @dataclasses.dataclass
  class Node:
      next: Node

  @dataclasses.dataclass
  class Outer:
      head: Node
  \<close>
  \<open>Person\<close> has a \<open>SchemaConfig\<close>, a nullable field without default, a field with a
  default, a field with a default factory and a date field with a default.
\<close>

definition Node :: dataclass where
  "Node = \<lparr>dc_name = ''Node'', schema_config = None,
     dc_fields = [\<lparr>field_name = ''next'', field_type = TDataclass 1,
                   field_default = MISSING, field_default_factory = MISSING\<rparr>]\<rparr>"

definition Outer :: dataclass where
  "Outer = \<lparr>dc_name = ''Outer'', schema_config = None,
     dc_fields = [\<lparr>field_name = ''head'', field_type = TDataclass 1,
                   field_default = MISSING, field_default_factory = MISSING\<rparr>]\<rparr>"

definition node_classes :: classes where
  "node_classes = [0 \<mapsto> Outer, 1 \<mapsto> Node]"

definition Person :: dataclass where
  "Person = \<lparr>dc_name = ''Person'',
     schema_config = Some (Some (SchemaAnnotation\<lparr>description := Some ''a person''\<rparr>)),
     dc_fields =
       [\<lparr>field_name = ''nick'', field_type = TUnion [TStr, TNone],
         field_default = MISSING, field_default_factory = MISSING\<rparr>,
        \<lparr>field_name = ''age'', field_type = TInt,
         field_default = Default (PInt 42), field_default_factory = MISSING\<rparr>,
        \<lparr>field_name = ''tags'', field_type = TList [TStr],
         field_default = MISSING, field_default_factory = Default (PObject ''list'')\<rparr>,
        \<lparr>field_name = ''born'', field_type = TDate,
         field_default = Default (PObject ''datetime.date(2000, 1, 1)''),
         field_default_factory = MISSING\<rparr>]\<rparr>"

definition session0 :: "nat \<Rightarrow> session" where
  "session0 dc = \<lparr>root = dc, seen_root = False, defs = []\<rparr>"

text \<open>
  \<open>Tree\<close> refers to \<open>Leaf\<close> twice and to itself:
  \<^verbatim>\<open>
  @dataclasses.dataclass
  class Leaf:
      c: str

  @dataclasses.dataclass
  class Tree:
      a: Leaf
      b: list[Leaf]
      up: t.Optional[Tree]
  \<close>
\<close>

definition Leaf :: dataclass where
  "Leaf = \<lparr>dc_name = ''Leaf'', schema_config = None,
     dc_fields = [\<lparr>field_name = ''c'', field_type = TStr,
                   field_default = MISSING, field_default_factory = MISSING\<rparr>]\<rparr>"

definition Tree :: dataclass where
  "Tree = \<lparr>dc_name = ''Tree'', schema_config = None,
     dc_fields =
       [\<lparr>field_name = ''a'', field_type = TDataclass 1,
         field_default = MISSING, field_default_factory = MISSING\<rparr>,
        \<lparr>field_name = ''b'', field_type = TList [TDataclass 1],
         field_default = MISSING, field_default_factory = MISSING\<rparr>,
        \<lparr>field_name = ''up'', field_type = TUnion [TDataclass 0, TNone],
         field_default = MISSING, field_default_factory = MISSING\<rparr>]\<rparr>"

definition tree_classes :: classes where
  "tree_classes = [0 \<mapsto> Tree, 1 \<mapsto> Leaf]"







definition Folder :: dataclass where
  "Folder = \<lparr>dc_name = ''Folder'', schema_config = None,
     dc_fields =
       [\<lparr>field_name = ''parent'', field_type = TUnion [TDataclass 0, TNone],
         field_default = MISSING, field_default_factory = MISSING\<rparr>,
        \<lparr>field_name = ''children'', field_type = TList [TDataclass 0],
         field_default = MISSING, field_default_factory = MISSING\<rparr>,
        \<lparr>field_name = ''by_name'', field_type = TDict [TStr, TDataclass 0],
         field_default = MISSING, field_default_factory = MISSING\<rparr>,
        \<lparr>field_name = ''shortcut'',
         field_type = TAnnotated (TDataclass 0) [SchemaAnnotation\<lparr>title := Some ''Shortcut''\<rparr>],
         field_default = MISSING, field_default_factory = MISSING\<rparr>,
        \<lparr>field_name = ''index'', field_type = TDataclass 1,
         field_default = MISSING, field_default_factory = MISSING\<rparr>]\<rparr>"

definition folder_classes :: classes where
  "folder_classes = [0 \<mapsto> Folder, 1 \<mapsto> Leaf]"

definition Holder :: dataclass where
  "Holder = \<lparr>dc_name = ''Holder'', schema_config = None,
     dc_fields =
       [\<lparr>field_name = ''parent'', field_type = TUnion [TDataclass 0, TNone],
         field_default = MISSING, field_default_factory = MISSING\<rparr>,
        \<lparr>field_name = ''payload'', field_type = TUnsupported ''bytes'',
         field_default = MISSING, field_default_factory = MISSING\<rparr>]\<rparr>"

definition holder_classes :: classes where
  "holder_classes = [0 \<mapsto> Holder]"




section \<open>The fragments in closed form\<close>

text \<open>
  What the compiler is expected to produce, written as a function of the type alone:
  no session, no fuel. \<open>spec_fragment cls r type' dflt ann\<close> is the fragment of a
  field of type \<open>type'\<close> with default \<open>dflt\<close> and metadata \<open>ann\<close> when \<open>r\<close> is the root
  and the root has been seen: a reference to the root is \<open>{"allOf": [{"$ref": "#"}]}\<close>,
  a reference to another class or to an enumeration that is not a number is
  \<open>{"allOf": [{"$ref": "#/$defs/<name>"}]}\<close>, and the containers hold the fragments of
  their arguments. The theorems below compare the compiler with it. Where the compiler
  raises (a tuple default that is not iterable, an enumeration default that is not a
  member, \<open>...\<close> outside a tuple, an unsupported type, an unknown class) the value
  given here is never compared.
\<close>

definition tuple_schema0 :: "default \<Rightarrow> schema_annotation \<Rightarrow> pydict" where
  "tuple_schema0 dflt ann =
     (case dflt of
        MISSING \<Rightarrow> schema ann
      | Default v \<Rightarrow> (case py_list v of
                        Inl e \<Rightarrow> schema ann
                      | Inr l \<Rightarrow> dict_merge [(''default'', l)] (schema ann)))"

definition enum_default :: "default \<Rightarrow> pydict" where
  "enum_default dflt =
     (case dflt of
        MISSING \<Rightarrow> []
      | Default v \<Rightarrow> (case member_value v of Inl e \<Rightarrow> [] | Inr x \<Rightarrow> [(''default'', x)]))"

fun spec_fragment :: "classes \<Rightarrow> nat \<Rightarrow> ty \<Rightarrow> default \<Rightarrow> schema_annotation \<Rightarrow> pydict" where
  "spec_fragment cls r (TDataclass c) dflt ann =
     (if c = r then dict_merge (ref_fragment ''#'') (schema ann)
      else case cls c of
             Some d \<Rightarrow> dict_merge (ref_fragment (''#/$defs/'' @ dc_name d)) (schema ann)
           | None \<Rightarrow> [])"
| "spec_fragment cls r (TUnion args) dflt ann =
     dict_merge
       (dict_merge
          [(''anyOf'', PList (map (\<lambda>a. PDict (spec_fragment cls r a MISSING SchemaAnnotation)) args))]
          (default_entry dflt))
       (schema ann)"
| "spec_fragment cls r (TLiteral vals) dflt ann =
     dict_merge [(''enum'', PList vals)] (dict_merge (default_entry dflt) (schema ann))"
| "spec_fragment cls r (TAnnotated base payloads) dflt ann =
     spec_fragment cls r base dflt (hd payloads)"
| "spec_fragment cls r (TDict args) dflt ann =
     (if args \<noteq> [] then
        dict_merge
          [(''type'', PStr ''object''),
           (''additionalProperties'',
            PDict (map (\<lambda>a. spec_fragment cls r a MISSING SchemaAnnotation) args ! 1))]
          (schema ann)
      else dict_merge [(''type'', PStr ''object'')] (schema ann))"
| "spec_fragment cls r (TList args) dflt ann =
     (if args \<noteq> [] then
        dict_merge
          [(''type'', PStr ''array''),
           (''items'', PDict (hd (map (\<lambda>a. spec_fragment cls r a MISSING SchemaAnnotation) args)))]
          (schema ann)
      else dict_merge [(''type'', PStr ''array'')] (schema ann))"
| "spec_fragment cls r (TTuple args) dflt ann =
     (if args \<noteq> [] \<and> length args = 2 \<and> args ! 1 = TEllipsis then
        dict_merge
          [(''type'', PStr ''array''),
           (''items'', PDict (hd (map (\<lambda>a. spec_fragment cls r a MISSING SchemaAnnotation) args)))]
          (tuple_schema0 dflt ann)
      else if args \<noteq> [] then
        dict_merge
          [(''type'', PStr ''array''),
           (''prefixItems'',
            PList (map (\<lambda>a. PDict (spec_fragment cls r a MISSING SchemaAnnotation)) args)),
           (''minItems'', PInt (int (length args))),
           (''maxItems'', PInt (int (length args)))]
          (tuple_schema0 dflt ann)
      else dict_merge [(''type'', PStr ''array'')] (tuple_schema0 dflt ann))"
| "spec_fragment cls r (TSet args) dflt ann =
     (if args \<noteq> [] then
        dict_merge
          [(''type'', PStr ''array''),
           (''items'', PDict (hd (map (\<lambda>a. spec_fragment cls r a MISSING SchemaAnnotation) args))),
           (''uniqueItems'', PBool True)]
          (schema ann)
      else dict_merge [(''type'', PStr ''array''), (''uniqueItems'', PBool True)] (schema ann))"
| "spec_fragment cls r TNone dflt ann =
     dict_merge (dict_merge [(''type'', PStr ''null'')] (default_entry dflt)) (schema ann)"
| "spec_fragment cls r TStr dflt ann =
     dict_merge (dict_merge [(''type'', PStr ''string'')] (default_entry dflt)) (schema ann)"
| "spec_fragment cls r TBool dflt ann =
     dict_merge (dict_merge [(''type'', PStr ''boolean'')] (default_entry dflt)) (schema ann)"
| "spec_fragment cls r TInt dflt ann =
     dict_merge (dict_merge [(''type'', PStr ''integer'')] (default_entry dflt)) (schema ann)"
| "spec_fragment cls r TNumber dflt ann =
     dict_merge (dict_merge [(''type'', PStr ''number'')] (default_entry dflt)) (schema ann)"
| "spec_fragment cls r (TEnum name number members) dflt ann =
     (if number then
        dict_merge (dict_merge [(''type'', PStr ''number'')] (default_entry dflt)) (schema ann)
      else
        dict_merge (dict_merge (ref_fragment (''#/$defs/'' @ name)) (enum_default dflt))
          (schema ann))"
| "spec_fragment cls r TDatetime dflt ann =
     dict_merge [(''type'', PStr ''string''), (''format'', PStr ''date-time'')] (schema ann)"
| "spec_fragment cls r TDate dflt ann =
     dict_merge [(''type'', PStr ''string''), (''format'', PStr ''date'')] (schema ann)"
| "spec_fragment cls r TEllipsis dflt ann = []"
| "spec_fragment cls r (TUnsupported name) dflt ann = []"

text \<open>The names under which a type refers to \<open>$defs\<close>: the classes other than the root
  and the enumerations that are not numbers, at any depth of containers.\<close>

fun named_refs :: "classes \<Rightarrow> nat \<Rightarrow> ty \<Rightarrow> string list" where
  "named_refs cls r (TDataclass c) =
     (if c = r then [] else case cls c of Some d \<Rightarrow> [dc_name d] | None \<Rightarrow> [])"
| "named_refs cls r (TEnum name number members) = (if number then [] else [name])"
| "named_refs cls r (TUnion args) = concat (map (named_refs cls r) args)"
| "named_refs cls r (TAnnotated base payloads) = named_refs cls r base"
| "named_refs cls r (TDict args) = concat (map (named_refs cls r) args)"
| "named_refs cls r (TList args) = concat (map (named_refs cls r) args)"
| "named_refs cls r (TTuple args) = concat (map (named_refs cls r) args)"
| "named_refs cls r (TSet args) = concat (map (named_refs cls r) args)"
| "named_refs cls r t = []"

text \<open>The object fragment of a class in closed form: one property per field, stored in
  field order, and the names of the fields without default under \<open>required\<close>.\<close>

definition spec_property :: "classes \<Rightarrow> nat \<Rightarrow> pydict \<Rightarrow> field \<Rightarrow> pydict" where
  "spec_property cls r props f =
     dict_set props (field_name f)
       (PDict (spec_fragment cls r (field_type f) (field_default f) SchemaAnnotation))"

definition spec_required :: "field list \<Rightarrow> pyval list" where
  "spec_required fs = map (\<lambda>f. PStr (field_name f)) (filter (\<lambda>f. \<not> field_is_optional f) fs)"

definition spec_object :: "classes \<Rightarrow> nat \<Rightarrow> dataclass \<Rightarrow> pydict" where
  "spec_object cls r d =
     (let props = foldl (spec_property cls r) [] (dc_fields d);
          req = spec_required (dc_fields d)
      in if req = [] then dict_pop (object_schema d props req) ''required''
         else object_schema d props req)"

text \<open>A type that holds, at any depth of containers, a mapping type whose first type
  argument is present and is not \<open>str\<close>.\<close>

fun has_bad_mapping :: "ty \<Rightarrow> bool" where
  "has_bad_mapping (TDict args) =
     (if args \<noteq> [] \<and> hd args \<noteq> TStr then True else list_ex has_bad_mapping args)"
| "has_bad_mapping (TUnion args) = list_ex has_bad_mapping args"
| "has_bad_mapping (TList args) = list_ex has_bad_mapping args"
| "has_bad_mapping (TTuple args) = list_ex has_bad_mapping args"
| "has_bad_mapping (TSet args) = list_ex has_bad_mapping args"
| "has_bad_mapping (TAnnotated base payloads) = has_bad_mapping base"
| "has_bad_mapping t = False"

section \<open>Invariants of the session\<close>

text \<open>
  An entry of \<open>defs\<close> is the definition of an enumeration, or the object fragment of a
  class other than the root \<open>r\<close>, stored under that class's name; in the latter case
  every name the class's fields refer to is among the keys \<open>K\<close>, and no field of the
  class holds a mapping with a key type other than \<open>str\<close>.
\<close>

definition enum_entry :: "string \<Rightarrow> pyval \<Rightarrow> bool" where
  "enum_entry k v \<longleftrightarrow> (\<exists>vals. v = PDict [(''title'', PStr k), (''enum'', PList vals)])"

definition class_entry :: "classes \<Rightarrow> nat \<Rightarrow> string set \<Rightarrow> string \<Rightarrow> pyval \<Rightarrow> bool" where
  "class_entry cls r K k v \<longleftrightarrow>
     (\<exists>c d. cls c = Some d \<and> c \<noteq> r \<and> dc_name d = k \<and> v = PDict (spec_object cls r d) \<and>
            (\<forall>f\<in>set (dc_fields d). set (named_refs cls r (field_type f)) \<subseteq> K) \<and>
            (\<forall>f\<in>set (dc_fields d). \<not> has_bad_mapping (field_type f)))"

definition entries_ok :: "classes \<Rightarrow> nat \<Rightarrow> pydict \<Rightarrow> bool" where
  "entries_ok cls r ds \<longleftrightarrow>
     (\<forall>kv\<in>set ds. enum_entry (fst kv) (snd kv) \<or>
                   class_entry cls r (set (dict_keys ds)) (fst kv) (snd kv))"

text \<open>
  What a call may do to the session: it keeps the root, never clears the root flag,
  keeps every entry of \<open>defs\<close> as it is, keeps the keys of \<open>defs\<close> distinct, and, once
  the root has been seen, keeps every entry of the kind above. A successful call on a
  type moreover leaves every name the type refers to in \<open>defs\<close>, and once the root has
  been seen its fragment is the closed form.
\<close>

definition step_ok :: "classes \<Rightarrow> session \<Rightarrow> session \<Rightarrow> bool" where
  "step_ok cls st st' \<longleftrightarrow>
     root st' = root st \<and> (seen_root st \<longrightarrow> seen_root st') \<and>
     (\<forall>k v. dict_get (defs st) k = Some v \<longrightarrow> dict_get (defs st') k = Some v) \<and>
     (distinct (dict_keys (defs st)) \<longrightarrow> distinct (dict_keys (defs st'))) \<and>
     (seen_root st \<longrightarrow> entries_ok cls (root st) (defs st) \<longrightarrow> entries_ok cls (root st) (defs st'))"

definition call_ok ::
  "classes \<Rightarrow> ty \<Rightarrow> default \<Rightarrow> schema_annotation \<Rightarrow> session \<Rightarrow> pydict \<Rightarrow> session \<Rightarrow> bool" where
  "call_ok cls type' dflt ann st s st' \<longleftrightarrow>
     step_ok cls st st' \<and>
     set (named_refs cls (root st) type') \<subseteq> set (dict_keys (defs st')) \<and>
     (seen_root st \<longrightarrow> s = spec_fragment cls (root st) type' dflt ann)"

definition gfs_ok :: "classes \<Rightarrow> field_compiler \<Rightarrow> bool" where
  "gfs_ok cls gfs \<longleftrightarrow>
     (\<forall>type' d a st s st'. gfs type' d a st = Ok (s, st') \<longrightarrow> call_ok cls type' d a st s st')"

definition gfs_rejects :: "field_compiler \<Rightarrow> bool" where
  "gfs_rejects gfs \<longleftrightarrow>
     (\<forall>type' d a st s st'. gfs type' d a st = Ok (s, st') \<longrightarrow> \<not> has_bad_mapping type')"

section \<open>Dictionary facts\<close>

lemma dict_set_update: "dict_set d k v = AList.update k v d"
  by (induction d) auto

lemma dict_get_dict_set: "dict_get (dict_set d k v) k' = (if k' = k then Some v else dict_get d k')"
  by (simp add: dict_get_def dict_set_update update_conv')

lemma keys_dict_set: "set (dict_keys (dict_set d k v)) = insert k (set (dict_keys d))"
  by (simp add: dict_keys_def dict_set_update dom_update)

lemma distinct_dict_set: "distinct (dict_keys d) \<Longrightarrow> distinct (dict_keys (dict_set d k v))"
  by (simp add: dict_keys_def dict_set_update distinct_update)

lemma keys_dict_merge: "set (dict_keys (dict_merge d e)) = set (dict_keys d) \<union> set (dict_keys e)"
proof (induction e arbitrary: d)
  case Nil
  then show ?case by (simp add: dict_keys_def)
next
  case (Cons p e)
  obtain k v where p: "p = (k, v)" by (cases p)
  have "set (dict_keys (dict_merge (dict_set d k v) e)) = set (dict_keys (dict_set d k v)) \<union> set (dict_keys e)"
    by (rule Cons.IH)
  then have "set (dict_keys (dict_merge (dict_set d k v) e)) = insert k (set (dict_keys d)) \<union> set (dict_keys e)"
    by (simp only: keys_dict_set)
  moreover have "set (dict_keys (p # e)) = insert k (set (dict_keys e))"
    by (simp add: p dict_keys_def)
  ultimately show ?case by (simp add: p)
qed

lemma distinct_dict_merge: "distinct (dict_keys d) \<Longrightarrow> distinct (dict_keys (dict_merge d e))"
proof (induction e arbitrary: d)
  case Nil
  then show ?case by simp
next
  case (Cons p e)
  then show ?case by (cases p) (simp add: distinct_dict_set)
qed

lemma dict_get_None_iff: "dict_get d k = None \<longleftrightarrow> k \<notin> set (dict_keys d)"
  by (simp add: dict_get_def dict_keys_def map_of_eq_None_iff)

lemma dict_get_merge_notin: "k \<notin> set (dict_keys e) \<Longrightarrow> dict_get (dict_merge d e) k = dict_get d k"
proof (induction e arbitrary: d)
  case Nil
  then show ?case by simp
next
  case (Cons p e)
  then show ?case by (cases p) (auto simp: dict_keys_def dict_get_dict_set)
qed

lemma dict_get_merge_in:
  "distinct (dict_keys e) \<Longrightarrow> dict_get e k = Some v \<Longrightarrow> dict_get (dict_merge d e) k = Some v"
proof (induction e arbitrary: d)
  case Nil
  then show ?case by (simp add: dict_get_def)
next
  case (Cons p e)
  obtain k' v' where p: "p = (k', v')" by (cases p)
  show ?case
  proof (cases "k' = k")
    case True
    with Cons.prems p have "v' = v" and "k \<notin> set (dict_keys e)"
      by (auto simp: dict_get_def dict_keys_def)
    then show ?thesis using True p by (simp add: dict_get_merge_notin dict_get_dict_set)
  next
    case False
    with Cons.prems p have "distinct (dict_keys e)" and "dict_get e k = Some v"
      by (auto simp: dict_get_def dict_keys_def)
    then show ?thesis using Cons.IH p by simp
  qed
qed

lemma dict_get_pop: "dict_get (dict_pop d k) k' = (if k' = k then None else dict_get d k')"
  by (induction d) (auto simp: dict_get_def dict_pop_def)

lemma keys_dict_pop: "set (dict_keys (dict_pop d k)) = set (dict_keys d) - {k}"
  by (induction d) (auto simp: dict_keys_def dict_pop_def)

lemma schema_keys_subset:
  "set (dict_keys (schema a)) \<subseteq>
     {''title'', ''description'', ''examples'', ''deprecated'', ''minLength'', ''maxLength'',
      ''pattern'', ''format'', ''minimum'', ''maximum'', ''exclusiveMinimum'',
      ''exclusiveMaximum'', ''multipleOf'', ''minItems'', ''maxItems'', ''uniqueItems''}"
proof -
  have "set (dict_keys (schema a)) \<subseteq> set (map (\<lambda>kv. key_map (fst kv)) (asdict a))"
    by (auto simp: schema_def dict_keys_def)
  also have "\<dots> = {''title'', ''description'', ''examples'', ''deprecated'', ''minLength'', ''maxLength'',
      ''pattern'', ''format'', ''minimum'', ''maximum'', ''exclusiveMinimum'',
      ''exclusiveMaximum'', ''multipleOf'', ''minItems'', ''maxItems'', ''uniqueItems''}"
    by (simp add: asdict_def key_map_def)
  finally show ?thesis .
qed

lemma distinct_map_filter_keys: "distinct (map f xs) \<Longrightarrow> distinct (map f (filter P xs))"
  by (induction xs) auto

lemma schema_distinct: "distinct (dict_keys (schema a))"
proof -
  have "distinct (map (\<lambda>kv. key_map (fst kv)) (asdict a))"
    by (simp add: asdict_def key_map_def)
  then have "distinct (map (\<lambda>kv. key_map (fst kv)) (filter (\<lambda>kv. snd kv \<noteq> PNone) (asdict a)))"
    by (rule distinct_map_filter_keys)
  then show ?thesis by (simp add: schema_def dict_keys_def comp_def)
qed

lemma schema_empty: "schema SchemaAnnotation = []"
  by (simp add: schema_def asdict_def SchemaAnnotation_def)


lemma bind_eq_Ok: "bind r f = Ok y \<longleftrightarrow> (\<exists>x. r = Ok x \<and> f x = Ok y)"
  by (cases r) auto

lemma bind_OutOfFuel: "r = OutOfFuel \<Longrightarrow> bind r f = OutOfFuel"
  by simp

lemma bind_Raise: "r = Raise e \<Longrightarrow> bind r f = Raise e"
  by simp

lemma dict_keys_Nil: "dict_keys [] = []"
  by (simp add: dict_keys_def)

lemma dict_keys_Cons: "dict_keys ((k, v) # d) = k # dict_keys d"
  by (simp add: dict_keys_def)

lemmas keys_simps = keys_dict_merge keys_dict_set keys_dict_pop dict_keys_Nil dict_keys_Cons

lemma dict_get_merge_distinct:
  assumes "distinct (dict_keys e)"
  shows "dict_get (dict_merge d e) k = (case dict_get e k of Some v \<Rightarrow> Some v | None \<Rightarrow> dict_get d k)"
proof (cases "dict_get e k")
  case None
  then have "k \<notin> set (dict_keys e)" by (simp add: dict_get_None_iff)
  then show ?thesis using None by (simp add: dict_get_merge_notin)
next
  case (Some v)
  then show ?thesis using assms by (simp add: dict_get_merge_in)
qed

section \<open>Facts about \<open>create_dc_schema\<close>\<close>

lemma create_dc_fields_required:
  "create_dc_fields gfs fs props req st = Ok ((props', req'), st') \<Longrightarrow>
   req' = req @ map (\<lambda>f. PStr (field_name f)) (filter (\<lambda>f. \<not> field_is_optional f) fs)"
proof (induction fs arbitrary: props req st)
  case Nil
  then show ?case by simp
next
  case (Cons f fs)
  from Cons.prems obtain s st1 where
    "create_dc_fields gfs fs (dict_set props (field_name f) (PDict s))
       (if \<not> field_is_optional f then req @ [PStr (field_name f)] else req) st1
     = Ok ((props', req'), st')"
    by (auto simp: bind_eq_Ok)
  from Cons.IH [OF this] show ?case by simp
qed

lemma create_dc_schema_Ok:
  assumes "create_dc_schema gfs dc st = Ok (s, st')"
  obtains props req where
    "create_dc_fields gfs (dc_fields dc) [] [] st = Ok ((props, req), st')"
    "s = (if req = [] then dict_pop (object_schema dc props req) ''required''
          else object_schema dc props req)"
  using assms unfolding create_dc_schema_def Let_def object_schema_def
  by (auto simp: bind_eq_Ok)

lemma object_schema_required: "dict_get (object_schema dc props req) ''required'' = Some (PList req)"
  unfolding object_schema_def
  by (rule dict_get_merge_in) (simp_all add: dict_keys_def dict_get_def)

lemma object_schema_properties:
  "dict_get (object_schema dc props req) ''properties'' = Some (PDict props)"
  unfolding object_schema_def
  by (rule dict_get_merge_in) (simp_all add: dict_keys_def dict_get_def)

lemma object_schema_other:
  "k \<noteq> ''properties'' \<Longrightarrow> k \<noteq> ''required'' \<Longrightarrow>
   dict_get (object_schema dc props req) k =
   dict_get (dict_merge [(''type'', PStr ''object''), (''title'', PStr (dc_name dc))]
               (schema (config_annotation dc))) k"
  unfolding object_schema_def
  by (rule dict_get_merge_notin) (simp add: dict_keys_def)

lemma object_schema_keys:
  "set (dict_keys (object_schema dc props req)) =
     {''type'', ''title'', ''properties'', ''required''} \<union> set (dict_keys (schema (config_annotation dc)))"
  unfolding object_schema_def by (auto simp: keys_simps)

lemma object_schema_distinct: "distinct (dict_keys (object_schema dc props req))"
  unfolding object_schema_def
  by (intro distinct_dict_merge) (simp add: dict_keys_def)

lemma distinct_dict_pop: "distinct (dict_keys d) \<Longrightarrow> distinct (dict_keys (dict_pop d k))"
  by (simp add: dict_keys_def dict_pop_def distinct_map_filter)

lemma filter_no_default:
  "filter (\<lambda>f. \<not> field_is_optional f) fs =
   filter (\<lambda>f. field_default f = MISSING \<and> field_default_factory f = MISSING) fs"
  by (rule filter_cong) (auto simp: field_is_optional_def)

lemma create_dc_schema_keys:
  assumes "create_dc_schema gfs dc st = Ok (s, st')"
  shows "distinct (dict_keys s)"
    and "set (dict_keys s) \<subseteq>
           {''type'', ''title'', ''properties'', ''required''}
           \<union> set (dict_keys (schema (config_annotation dc)))"
proof -
  from assms obtain props req where
    s: "s = (if req = [] then dict_pop (object_schema dc props req) ''required''
             else object_schema dc props req)"
    by (rule create_dc_schema_Ok)
  show "distinct (dict_keys s)"
    by (simp add: s object_schema_distinct distinct_dict_pop)
  show "set (dict_keys s) \<subseteq>
           {''type'', ''title'', ''properties'', ''required''}
           \<union> set (dict_keys (schema (config_annotation dc)))"
    by (auto simp: s object_schema_keys keys_dict_pop)
qed

lemma schema_keys_not:
  "''$schema'' \<notin> set (dict_keys (schema a))"
  "''$defs'' \<notin> set (dict_keys (schema a))"
  "''type'' \<notin> set (dict_keys (schema a))"
  "''properties'' \<notin> set (dict_keys (schema a))"
  "''required'' \<notin> set (dict_keys (schema a))"
  "''allOf'' \<notin> set (dict_keys (schema a))"
  using schema_keys_subset [of a] by auto

lemma get_dc_schema_root_first:
  assumes "get_dc_schema gfs cls dc a st = Ok (s, st')" and "dc = root st" and "\<not> seen_root st"
  obtains d where "cls dc = Some d" "create_dc_schema gfs d (st\<lparr>seen_root := True\<rparr>) = Ok (s, st')"
  using assms by (auto simp: get_dc_schema_def split: option.splits)

lemma no_default_in_schema: "''default'' \<notin> set (dict_keys (schema a))"
  using schema_keys_subset [of a] by auto

section \<open>Termination on cyclic type graphs\<close>

lemma node_diverges:
  "get_field_schema n node_classes (TDataclass 1) d a \<lparr>root = 0, seen_root = True, defs = []\<rparr>
     = OutOfFuel"
proof (induction n arbitrary: d a)
  case 0
  show ?case by simp
next
  case (Suc n)
  have fields: "create_dc_fields (get_field_schema n node_classes) (dc_fields Node) [] []
                  \<lparr>root = 0, seen_root = True, defs = []\<rparr> = OutOfFuel"
    by (simp add: Node_def field_is_optional_def Suc.IH del: One_nat_def)
  have "create_dc_schema (get_field_schema n node_classes) Node
          \<lparr>root = 0, seen_root = True, defs = []\<rparr> = OutOfFuel"
    unfolding create_dc_schema_def Let_def by (simp only: fields bind.simps)
  moreover have "node_classes 1 = Some Node"
    by (simp add: node_classes_def)
  ultimately show ?case
    by (simp add: get_dc_schema_def dict_get_def del: One_nat_def)
qed

text \<open>
  C1. The claim is that one call of \<open>get_schema\<close> returns a finite document for every
  type graph, also when a record type that is not the root has a field of its own type.
  On \<open>Outer\<close> and \<open>Node\<close> the call does not return: no amount of fuel is enough.
  \<open>get_dc_schema\<close> stores the name of a non-root class in \<open>defs\<close> only after
  \<open>create_dc_schema\<close> has come back, so the lookup that should stop the descent
  never finds the name while the class is being compiled.
\<close>

theorem nonroot_self_reference_never_returns:
  "get_schema n node_classes 0 = OutOfFuel"
proof -
  have fields: "create_dc_fields (get_field_schema n node_classes) (dc_fields Outer) [] []
                  \<lparr>root = 0, seen_root = True, defs = []\<rparr> = OutOfFuel"
    by (simp add: Outer_def field_is_optional_def node_diverges del: One_nat_def)
  have "create_dc_schema (get_field_schema n node_classes) Outer
          \<lparr>root = 0, seen_root = True, defs = []\<rparr> = OutOfFuel"
    unfolding create_dc_schema_def Let_def by (simp only: fields bind.simps)
  moreover have "node_classes 0 = Some Outer"
    by (simp add: node_classes_def)
  ultimately show ?thesis
    by (simp add: get_schema_def get_dc_schema_def)
qed

section \<open>Required fields\<close>

text \<open>
  C4. In the object fragment of every record type, \<open>required\<close> lists exactly the fields
  with neither a default value nor a default factory, in declaration order and whatever
  their declared type; when there is no such field the key is absent.
\<close>

theorem required_lists_fields_without_default:
  assumes "create_dc_schema gfs dc st = Ok (s, st')"
  shows "dict_get s ''required'' =
    (let names = map field_name
           (filter (\<lambda>f. field_default f = MISSING \<and> field_default_factory f = MISSING)
              (dc_fields dc))
     in if names = [] then None else Some (PList (map PStr names)))"
proof -
  from assms obtain props req where
    fs: "create_dc_fields gfs (dc_fields dc) [] [] st = Ok ((props, req), st')" and
    s: "s = (if req = [] then dict_pop (object_schema dc props req) ''required''
             else object_schema dc props req)"
    by (rule create_dc_schema_Ok)
  have req: "req = map (\<lambda>f. PStr (field_name f))
      (filter (\<lambda>f. field_default f = MISSING \<and> field_default_factory f = MISSING) (dc_fields dc))"
    using create_dc_fields_required [OF fs] by (simp add: filter_no_default)
  have "dict_get s ''required'' = (if req = [] then None else Some (PList req))"
    by (simp add: s dict_get_pop object_schema_required)
  then show ?thesis by (simp add: req Let_def comp_def)
qed

theorem required_lists_fields_without_default_witness:
  "create_dc_schema (get_field_schema 2 Map.empty) Person (session0 0)
     = Ok ([(''type'', PStr ''object''), (''title'', PStr ''Person''),
            (''description'', PStr ''a person''),
            (''properties'', PDict
               [(''nick'', PDict [(''anyOf'', PList [PDict [(''type'', PStr ''string'')],
                                                      PDict [(''type'', PStr ''null'')]])]),
                (''age'', PDict [(''type'', PStr ''integer''), (''default'', PInt 42)]),
                (''tags'', PDict [(''type'', PStr ''array''),
                                  (''items'', PDict [(''type'', PStr ''string'')])]),
                (''born'', PDict [(''type'', PStr ''string''), (''format'', PStr ''date'')])]),
            (''required'', PList [PStr ''nick''])], session0 0)
   \<and> dict_get [(''type'', PStr ''object''), (''title'', PStr ''Person''),
            (''description'', PStr ''a person''),
            (''properties'', PDict
               [(''nick'', PDict [(''anyOf'', PList [PDict [(''type'', PStr ''string'')],
                                                      PDict [(''type'', PStr ''null'')]])]),
                (''age'', PDict [(''type'', PStr ''integer''), (''default'', PInt 42)]),
                (''tags'', PDict [(''type'', PStr ''array''),
                                  (''items'', PDict [(''type'', PStr ''string'')])]),
                (''born'', PDict [(''type'', PStr ''string''), (''format'', PStr ''date'')])]),
            (''required'', PList [PStr ''nick''])] ''required'' = Some (PList [PStr ''nick''])"
proof -
  have h: "create_dc_schema (get_field_schema 2 Map.empty) Person (session0 0)
     = Ok ([(''type'', PStr ''object''), (''title'', PStr ''Person''),
            (''description'', PStr ''a person''),
            (''properties'', PDict
               [(''nick'', PDict [(''anyOf'', PList [PDict [(''type'', PStr ''string'')],
                                                      PDict [(''type'', PStr ''null'')]])]),
                (''age'', PDict [(''type'', PStr ''integer''), (''default'', PInt 42)]),
                (''tags'', PDict [(''type'', PStr ''array''),
                                  (''items'', PDict [(''type'', PStr ''string'')])]),
                (''born'', PDict [(''type'', PStr ''string''), (''format'', PStr ''date'')])]),
            (''required'', PList [PStr ''nick''])], session0 0)"
    by code_simp
  from required_lists_fields_without_default [OF h] h show ?thesis
    by (simp add: Person_def Let_def)
qed

section \<open>Date and date-time fields\<close>

text \<open>
  C5, as claimed: a date field with a default value gets \<open>"default"\<close> set to that value.
  It does not: \<open>get_date_schema\<close> and \<open>get_datetime_schema\<close> are not handed the default.
\<close>

theorem temporal_default_dropped_counterexample:
  "get_field_schema 1 Map.empty TDate (Default (PObject ''datetime.date(2000, 1, 1)''))
     SchemaAnnotation \<lparr>root = 0, seen_root = True, defs = []\<rparr>
   = Ok ([(''type'', PStr ''string''), (''format'', PStr ''date'')],
         \<lparr>root = 0, seen_root = True, defs = []\<rparr>)
   \<and> dict_get [(''type'', PStr ''string''), (''format'', PStr ''date'')] ''default''
       \<noteq> Some (PObject ''datetime.date(2000, 1, 1)'')"
  by (simp add: get_date_schema_def schema_empty dict_get_def)

text \<open>
  C5, amended. A date (date-time) type compiles to \<open>{"type": "string", "format": "date"}\<close>
  (\<open>"date-time"\<close>) with the metadata keywords merged in, the session unchanged, and
  no \<open>"default"\<close> key, whatever the default of the field.
\<close>

theorem temporal_schema_without_default:
  "get_field_schema (Suc n) cls TDate dflt a st
     = Ok (dict_merge [(''type'', PStr ''string''), (''format'', PStr ''date'')] (schema a), st)
   \<and> get_field_schema (Suc n) cls TDatetime dflt a st
     = Ok (dict_merge [(''type'', PStr ''string''), (''format'', PStr ''date-time'')] (schema a), st)
   \<and> dict_get (dict_merge [(''type'', PStr ''string''), (''format'', PStr ''date'')] (schema a))
       ''default'' = None
   \<and> dict_get (dict_merge [(''type'', PStr ''string''), (''format'', PStr ''date-time'')] (schema a))
       ''default'' = None"
  by (simp add: get_date_schema_def get_datetime_schema_def dict_get_None_iff keys_simps
      no_default_in_schema)

section \<open>The document\<close>

lemma get_schema_Ok:
  assumes "get_schema fuel cls dc = Ok doc"
  obtains d s st where
    "cls dc = Some d"
    "create_dc_schema (get_field_schema fuel cls) d \<lparr>root = dc, seen_root = True, defs = []\<rparr>
       = Ok (s, st)"
    "get_dc_schema (get_field_schema fuel cls) cls dc SchemaAnnotation
       \<lparr>root = dc, seen_root = False, defs = []\<rparr> = Ok (s, st)"
    "dict_get doc ''$schema'' = Some (PStr ''https://json-schema.org/draft/2020-12/schema'')"
    "\<forall>k. k \<noteq> ''$schema'' \<and> k \<noteq> ''$defs'' \<longrightarrow> dict_get doc k = dict_get s k"
    "dict_get doc ''$defs'' = (if defs st = [] then None else Some (PDict (defs st)))"
proof -
  let ?st0 = "\<lparr>root = dc, seen_root = False, defs = []\<rparr>"
  let ?head = "[(''$schema'', PStr ''https://json-schema.org/draft/2020-12/schema'')]"
  from assms obtain s st where
    call: "get_dc_schema (get_field_schema fuel cls) cls dc SchemaAnnotation ?st0 = Ok (s, st)" and
    doc: "doc = dict_merge ?head
            (if defs st \<noteq> [] then dict_set s ''$defs'' (PDict (defs st)) else s)"
    by (auto simp: get_schema_def bind_eq_Ok Let_def)
  define s1 where "s1 = (if defs st \<noteq> [] then dict_set s ''$defs'' (PDict (defs st)) else s)"
  from call obtain d where
    d: "cls dc = Some d" and
    create: "create_dc_schema (get_field_schema fuel cls) d (?st0\<lparr>seen_root := True\<rparr>) = Ok (s, st)"
    by (rule get_dc_schema_root_first) simp_all
  from create_dc_schema_keys [OF create] have
    dist: "distinct (dict_keys s)" and
    keys: "set (dict_keys s) \<subseteq> {''type'', ''title'', ''properties'', ''required''}
             \<union> set (dict_keys (schema (config_annotation d)))"
    by blast+
  have no_schema: "''$schema'' \<notin> set (dict_keys s)" and no_defs: "''$defs'' \<notin> set (dict_keys s)"
    using keys schema_keys_not(1,2) [of "config_annotation d"] by auto
  have dist1: "distinct (dict_keys s1)"
    by (simp add: s1_def dist distinct_dict_set)
  have get1: "dict_get s1 k =
      (if k = ''$defs'' then (if defs st = [] then None else Some (PDict (defs st)))
       else dict_get s k)" for k
    using no_defs by (simp add: s1_def dict_get_dict_set dict_get_None_iff)
  have doc_get: "dict_get doc k =
      (case dict_get s1 k of Some v \<Rightarrow> Some v | None \<Rightarrow> dict_get ?head k)" for k
    unfolding doc s1_def [symmetric] by (rule dict_get_merge_distinct [OF dist1])
  have head: "dict_get ?head k =
      (if k = ''$schema'' then Some (PStr ''https://json-schema.org/draft/2020-12/schema'')
       else None)" for k
    by (simp add: dict_get_def)
  have s_none: "dict_get s ''$schema'' = None" "dict_get s ''$defs'' = None"
    using no_schema no_defs by (simp_all add: dict_get_None_iff)
  have a: "dict_get doc ''$schema''
             = Some (PStr ''https://json-schema.org/draft/2020-12/schema'')"
    by (simp add: doc_get get1 head s_none)
  have "dict_get doc k = dict_get s k" if "k \<noteq> ''$schema''" "k \<noteq> ''$defs''" for k
    using that by (simp add: doc_get get1 head split: option.splits)
  then have b: "\<forall>k. k \<noteq> ''$schema'' \<and> k \<noteq> ''$defs'' \<longrightarrow> dict_get doc k = dict_get s k"
    by blast
  have c: "dict_get doc ''$defs'' = (if defs st = [] then None else Some (PDict (defs st)))"
    by (simp add: doc_get get1 head)
  from create have "create_dc_schema (get_field_schema fuel cls) d
      \<lparr>root = dc, seen_root = True, defs = []\<rparr> = Ok (s, st)"
    by simp
  from that [OF d this call a b c] show ?thesis .
qed

text \<open>
  C7. The mapping \<open>get_schema\<close> returns has \<open>"$schema"\<close> set to the 2020-12 dialect,
  every other key of the root fragment with the root fragment's value, and \<open>"$defs"\<close>
  exactly when the definitions table is not empty at the end, holding that table.
\<close>

theorem get_schema_document:
  assumes "get_schema fuel cls dc = Ok doc"
  shows "\<exists>s st. get_dc_schema (get_field_schema fuel cls) cls dc SchemaAnnotation
                  \<lparr>root = dc, seen_root = False, defs = []\<rparr> = Ok (s, st)
     \<and> dict_get doc ''$schema'' = Some (PStr ''https://json-schema.org/draft/2020-12/schema'')
     \<and> (\<forall>k. k \<noteq> ''$schema'' \<and> k \<noteq> ''$defs'' \<longrightarrow> dict_get doc k = dict_get s k)
     \<and> dict_get doc ''$defs'' = (if defs st = [] then None else Some (PDict (defs st)))"
proof -
  from assms obtain d s st where
    "cls dc = Some d"
    "create_dc_schema (get_field_schema fuel cls) d \<lparr>root = dc, seen_root = True, defs = []\<rparr>
       = Ok (s, st)"
    "get_dc_schema (get_field_schema fuel cls) cls dc SchemaAnnotation
       \<lparr>root = dc, seen_root = False, defs = []\<rparr> = Ok (s, st)"
    "dict_get doc ''$schema'' = Some (PStr ''https://json-schema.org/draft/2020-12/schema'')"
    "\<forall>k. k \<noteq> ''$schema'' \<and> k \<noteq> ''$defs'' \<longrightarrow> dict_get doc k = dict_get s k"
    "dict_get doc ''$defs'' = (if defs st = [] then None else Some (PDict (defs st)))"
    by (rule get_schema_Ok)
  then show ?thesis by blast
qed

theorem get_schema_document_witness:
  "get_schema 3 [0 \<mapsto> Person] 0 =
     Ok [(''$schema'', PStr ''https://json-schema.org/draft/2020-12/schema''),
         (''type'', PStr ''object''), (''title'', PStr ''Person''),
         (''description'', PStr ''a person''),
         (''properties'', PDict
            [(''nick'', PDict [(''anyOf'', PList [PDict [(''type'', PStr ''string'')],
                                                   PDict [(''type'', PStr ''null'')]])]),
             (''age'', PDict [(''type'', PStr ''integer''), (''default'', PInt 42)]),
             (''tags'', PDict [(''type'', PStr ''array''),
                               (''items'', PDict [(''type'', PStr ''string'')])]),
             (''born'', PDict [(''type'', PStr ''string''), (''format'', PStr ''date'')])]),
         (''required'', PList [PStr ''nick''])]
   \<and> (\<exists>s st. get_dc_schema (get_field_schema 3 [0 \<mapsto> Person]) [0 \<mapsto> Person] 0 SchemaAnnotation
                  \<lparr>root = 0, seen_root = False, defs = []\<rparr> = Ok (s, st)
        \<and> dict_get s ''title'' = Some (PStr ''Person'') \<and> defs st = [])"
proof -
  let ?doc = "[(''$schema'', PStr ''https://json-schema.org/draft/2020-12/schema''),
         (''type'', PStr ''object''), (''title'', PStr ''Person''),
         (''description'', PStr ''a person''),
         (''properties'', PDict
            [(''nick'', PDict [(''anyOf'', PList [PDict [(''type'', PStr ''string'')],
                                                   PDict [(''type'', PStr ''null'')]])]),
             (''age'', PDict [(''type'', PStr ''integer''), (''default'', PInt 42)]),
             (''tags'', PDict [(''type'', PStr ''array''),
                               (''items'', PDict [(''type'', PStr ''string'')])]),
             (''born'', PDict [(''type'', PStr ''string''), (''format'', PStr ''date'')])]),
         (''required'', PList [PStr ''nick''])]"
  have h: "get_schema 3 [0 \<mapsto> Person] 0 = Ok ?doc"
    by code_simp
  have t: "dict_get ?doc ''title'' = Some (PStr ''Person'')" and d: "dict_get ?doc ''$defs'' = None"
    by (simp_all add: dict_get_def)
  from get_schema_document [OF h] obtain s st where
    "get_dc_schema (get_field_schema 3 [0 \<mapsto> Person]) [0 \<mapsto> Person] 0 SchemaAnnotation
                  \<lparr>root = 0, seen_root = False, defs = []\<rparr> = Ok (s, st)"
    "dict_get ?doc ''title'' = dict_get s ''title''"
    "dict_get ?doc ''$defs'' = (if defs st = [] then None else Some (PDict (defs st)))"
    by auto
  with t d h show ?thesis by (auto split: if_splits)
qed


section \<open>The \<open>SchemaConfig\<close> annotation\<close>

lemma dict_get_Some_key: "dict_get d k = Some v \<Longrightarrow> k \<in> set (dict_keys d)"
  using dict_get_None_iff [of d k] by auto

lemma schema_key_iff:
  "k \<in> set (dict_keys (schema a)) \<longleftrightarrow>
     (\<exists>kv\<in>set (asdict a). snd kv \<noteq> PNone \<and> key_map (fst kv) = k)"
  by (auto simp: schema_def dict_keys_def)

lemma schema_title_None: "title a = None \<Longrightarrow> ''title'' \<notin> set (dict_keys (schema a))"
  unfolding schema_key_iff by (simp add: asdict_def key_map_def)

lemma config_annotation_simps:
  "schema_config dc = Some (Some a) \<Longrightarrow> config_annotation dc = a"
  "schema_config dc = None \<Longrightarrow> config_annotation dc = SchemaAnnotation"
  by (simp_all add: config_annotation_def)

lemma create_dc_schema_get:
  assumes "create_dc_schema gfs dc st = Ok (s, st')"
  shows "dict_get s ''type'' = Some (PStr ''object'')"
    and "dict_get (schema (config_annotation dc)) k = Some v \<Longrightarrow> dict_get s k = Some v"
    and "''title'' \<notin> set (dict_keys (schema (config_annotation dc))) \<Longrightarrow>
           dict_get s ''title'' = Some (PStr (dc_name dc))"
    and "\<exists>props. dict_get s ''properties'' = Some (PDict props)"
proof -
  let ?base = "[(''type'', PStr ''object''), (''title'', PStr (dc_name dc))]"
  let ?ann = "schema (config_annotation dc)"
  from assms obtain props req where
    s: "s = (if req = [] then dict_pop (object_schema dc props req) ''required''
             else object_schema dc props req)"
    by (rule create_dc_schema_Ok)
  have other: "dict_get s k = dict_get (dict_merge ?base ?ann) k"
    if "k \<noteq> ''properties''" "k \<noteq> ''required''" for k
    using that by (simp add: s dict_get_pop object_schema_other)
  have base: "dict_get ?base ''type'' = Some (PStr ''object'')"
             "dict_get ?base ''title'' = Some (PStr (dc_name dc))"
    by (simp_all add: dict_get_def)
  show "dict_get s ''type'' = Some (PStr ''object'')"
    using schema_keys_not(3) [of "config_annotation dc"]
    by (simp add: other dict_get_merge_notin base)
  show "dict_get s ''title'' = Some (PStr (dc_name dc))"
    if "''title'' \<notin> set (dict_keys ?ann)"
    using that by (simp add: other dict_get_merge_notin base)
  show "dict_get s k = Some v" if "dict_get ?ann k = Some v"
  proof -
    from that have "k \<in> set (dict_keys ?ann)" by (rule dict_get_Some_key)
    then have "k \<noteq> ''properties''" "k \<noteq> ''required''"
      using schema_keys_not(4,5) [of "config_annotation dc"] by auto
    then have "dict_get s k = dict_get (dict_merge ?base ?ann) k" by (rule other)
    also have "\<dots> = Some v" using schema_distinct that by (rule dict_get_merge_in)
    finally show ?thesis .
  qed
  show "\<exists>props. dict_get s ''properties'' = Some (PDict props)"
    by (auto simp: s dict_get_pop object_schema_properties)
qed

lemma get_dc_schema_nonroot_new:
  assumes "get_dc_schema gfs cls c a st = Ok (r, st')" and "cls c = Some d"
    and "c \<noteq> root st" and "dict_get (defs st) (dc_name d) = None"
  obtains s st1 where "create_dc_schema gfs d st = Ok (s, st1)"
    "st' = st1\<lparr>defs := dict_set (defs st1) (dc_name d) (PDict s)\<rparr>"
    "r = dict_merge (ref_fragment (''#/$defs/'' @ dc_name d)) (schema a)"
  using assms by (auto simp: get_dc_schema_def bind_eq_Ok)

lemma get_dc_schema_nonroot_old:
  assumes "get_dc_schema gfs cls c a st = Ok (r, st')" and "cls c = Some d"
    and "c \<noteq> root st" and "dict_get (defs st) (dc_name d) \<noteq> None"
  shows "st' = st" "r = dict_merge (ref_fragment (''#/$defs/'' @ dc_name d)) (schema a)"
  using assms by (auto simp: get_dc_schema_def bind_eq_Ok)

text \<open>
  C9. Whenever \<open>get_dc_schema\<close> compiles a class in full, as the root (whose fragment it
  returns) or as a new entry of \<open>defs\<close>, the object fragment has \<open>"type": "object"\<close> and
  every keyword of the annotation of the class's \<open>SchemaConfig\<close> with the annotation's
  value, and the class name as title unless the annotation sets one. Without a
  \<open>SchemaConfig\<close> the fragment has no key besides \<open>type\<close>, \<open>title\<close>, \<open>properties\<close> and
  \<open>required\<close>.
\<close>

theorem schema_config_annotation_merged:
  assumes "cls c = Some dc"
    and "get_dc_schema gfs cls c ann st = Ok (r, st')"
    and "if c = root st then \<not> seen_root st else dict_get (defs st) (dc_name dc) = None"
  shows "\<exists>s. (if c = root st then r = s else dict_get (defs st') (dc_name dc) = Some (PDict s))
      \<and> dict_get s ''type'' = Some (PStr ''object'')
      \<and> (\<forall>a. schema_config dc = Some (Some a) \<longrightarrow>
            (\<forall>k v. dict_get (schema a) k = Some v \<longrightarrow> dict_get s k = Some v)
          \<and> (title a = None \<longrightarrow> dict_get s ''title'' = Some (PStr (dc_name dc))))
      \<and> (schema_config dc = None \<longrightarrow>
            dict_get s ''title'' = Some (PStr (dc_name dc))
          \<and> set (dict_keys s) \<subseteq> {''type'', ''title'', ''properties'', ''required''})"
proof -
  have "\<exists>s st0 st1. create_dc_schema gfs dc st0 = Ok (s, st1)
      \<and> (if c = root st then r = s else dict_get (defs st') (dc_name dc) = Some (PDict s))"
  proof (cases "c = root st")
    case True
    with assms(3) have "\<not> seen_root st" by simp
    with assms(2) True obtain d where "cls c = Some d"
      "create_dc_schema gfs d (st\<lparr>seen_root := True\<rparr>) = Ok (r, st')"
      by (rule get_dc_schema_root_first [where dc = c]) 
    with assms(1) True show ?thesis by auto
  next
    case False
    with assms(3) have "dict_get (defs st) (dc_name dc) = None" by simp
    from assms(2,1) False this obtain s st1 where
      "create_dc_schema gfs dc st = Ok (s, st1)"
      "st' = st1\<lparr>defs := dict_set (defs st1) (dc_name dc) (PDict s)\<rparr>"
      by (rule get_dc_schema_nonroot_new)
    with False show ?thesis by (auto simp: dict_get_dict_set)
  qed
  then obtain s st0 st1 where
    c: "create_dc_schema gfs dc st0 = Ok (s, st1)" and
    r: "if c = root st then r = s else dict_get (defs st') (dc_name dc) = Some (PDict s)"
    by blast
  have 1: "dict_get s ''type'' = Some (PStr ''object'')"
    by (rule create_dc_schema_get(1) [OF c])
  have 2: "dict_get s k = Some v" if "schema_config dc = Some (Some a)" "dict_get (schema a) k = Some v"
    for a k v
    using create_dc_schema_get(2) [OF c, of k v] that by (simp add: config_annotation_simps)
  have 3: "dict_get s ''title'' = Some (PStr (dc_name dc))"
    if "schema_config dc = Some (Some a)" "title a = None" for a
    using create_dc_schema_get(3) [OF c] that
    by (simp add: config_annotation_simps schema_title_None)
  have 4: "dict_get s ''title'' = Some (PStr (dc_name dc))" if "schema_config dc = None"
    using create_dc_schema_get(3) [OF c] that
    by (simp add: config_annotation_simps schema_empty dict_keys_Nil)
  have 5: "set (dict_keys s) \<subseteq> {''type'', ''title'', ''properties'', ''required''}"
    if "schema_config dc = None"
    using create_dc_schema_keys(2) [OF c] that
    by (simp add: config_annotation_simps schema_empty dict_keys_Nil)
  show ?thesis
  proof (rule exI [of _ s], intro conjI allI impI)
    show "if c = root st then r = s else dict_get (defs st') (dc_name dc) = Some (PDict s)"
      by (rule r)
    show "dict_get s ''type'' = Some (PStr ''object'')"
      by (rule 1)
    show "dict_get s k = Some v"
      if "schema_config dc = Some (Some a)" "dict_get (schema a) k = Some v" for a k v
      using that by (rule 2)
    show "dict_get s ''title'' = Some (PStr (dc_name dc))"
      if "schema_config dc = Some (Some a)" "title a = None" for a
      using that by (rule 3)
    show "dict_get s ''title'' = Some (PStr (dc_name dc))" if "schema_config dc = None"
      using that by (rule 4)
    show "set (dict_keys s) \<subseteq> {''type'', ''title'', ''properties'', ''required''}"
      if "schema_config dc = None"
      using that by (rule 5)
  qed
qed

theorem schema_config_annotation_merged_witness:
  "(\<exists>s. get_dc_schema (get_field_schema 2 [0 \<mapsto> Person]) [0 \<mapsto> Person] 0 SchemaAnnotation
          (session0 0) = Ok (s, session0 0\<lparr>seen_root := True\<rparr>)
        \<and> dict_get s ''description'' = Some (PStr ''a person'')
        \<and> dict_get s ''title'' = Some (PStr ''Person''))
   \<and> (\<exists>s. dict_get (defs \<lparr>root = 0, seen_root = True, defs = [(''Leaf'',
              PDict [(''type'', PStr ''object''), (''title'', PStr ''Leaf''),
                     (''properties'', PDict [(''c'', PDict [(''type'', PStr ''string'')])]),
                     (''required'', PList [PStr ''c''])])]\<rparr>) ''Leaf'' = Some (PDict s)
        \<and> set (dict_keys s) \<subseteq> {''type'', ''title'', ''properties'', ''required''})"
proof -
  let ?cls1 = "[0 \<mapsto> Person]"
  let ?frag = "[(''type'', PStr ''object''), (''title'', PStr ''Person''),
            (''description'', PStr ''a person''),
            (''properties'', PDict
               [(''nick'', PDict [(''anyOf'', PList [PDict [(''type'', PStr ''string'')],
                                                      PDict [(''type'', PStr ''null'')]])]),
                (''age'', PDict [(''type'', PStr ''integer''), (''default'', PInt 42)]),
                (''tags'', PDict [(''type'', PStr ''array''),
                                  (''items'', PDict [(''type'', PStr ''string'')])]),
                (''born'', PDict [(''type'', PStr ''string''), (''format'', PStr ''date'')])]),
            (''required'', PList [PStr ''nick''])]"
  have h1: "get_dc_schema (get_field_schema 2 ?cls1) ?cls1 0 SchemaAnnotation (session0 0)
      = Ok (?frag, session0 0\<lparr>seen_root := True\<rparr>)"
    by code_simp
  have c1: "?cls1 0 = Some Person" by simp
  have p1: "if 0 = root (session0 0) then \<not> seen_root (session0 0)
            else dict_get (defs (session0 0)) (dc_name Person) = None"
    by (simp add: session0_def)
  have cfg: "schema_config Person = Some (Some (SchemaAnnotation\<lparr>description := Some ''a person''\<rparr>))"
    by (simp add: Person_def)
  have sch: "dict_get (schema (SchemaAnnotation\<lparr>description := Some ''a person''\<rparr>)) ''description''
      = Some (PStr ''a person'')"
    by code_simp
  have ttl: "title (SchemaAnnotation\<lparr>description := Some ''a person''\<rparr>) = None"
    by (simp add: SchemaAnnotation_def)
  from schema_config_annotation_merged [OF c1 h1 p1] cfg sch ttl
  have "dict_get ?frag ''description'' = Some (PStr ''a person'')
      \<and> dict_get ?frag ''title'' = Some (PStr ''Person'')"
    by (auto simp: session0_def Person_def)
  with h1 have A: "\<exists>s. get_dc_schema (get_field_schema 2 ?cls1) ?cls1 0 SchemaAnnotation
          (session0 0) = Ok (s, session0 0\<lparr>seen_root := True\<rparr>)
        \<and> dict_get s ''description'' = Some (PStr ''a person'')
        \<and> dict_get s ''title'' = Some (PStr ''Person'')"
    by blast
  let ?st = "\<lparr>root = 0, seen_root = True, defs = []\<rparr>"
  let ?st' = "\<lparr>root = 0, seen_root = True, defs = [(''Leaf'',
              PDict [(''type'', PStr ''object''), (''title'', PStr ''Leaf''),
                     (''properties'', PDict [(''c'', PDict [(''type'', PStr ''string'')])]),
                     (''required'', PList [PStr ''c''])])]\<rparr>"
  have h2: "get_dc_schema (get_field_schema 2 tree_classes) tree_classes 1 SchemaAnnotation ?st
      = Ok ([(''allOf'', PList [PDict [(''$ref'', PStr ''#/$defs/Leaf'')]])], ?st')"
    by code_simp
  have c2: "tree_classes 1 = Some Leaf" by (simp add: tree_classes_def)
  have p2: "if 1 = root ?st then \<not> seen_root ?st else dict_get (defs ?st) (dc_name Leaf) = None"
    by (simp add: dict_get_def)
  have cfg2: "schema_config Leaf = None" by (simp add: Leaf_def)
  from schema_config_annotation_merged [OF c2 h2 p2] cfg2
  have B: "\<exists>s. dict_get (defs ?st') ''Leaf'' = Some (PDict s)
        \<and> set (dict_keys s) \<subseteq> {''type'', ''title'', ''properties'', ''required''}"
    by (auto simp: Leaf_def)
  from A B show ?thesis by blast
qed

section \<open>Fields with a default factory\<close>

lemma get_dc_schema_no_default:
  assumes "get_dc_schema gfs cls c a st = Ok (s, st')"
  shows "''default'' \<notin> set (dict_keys s)"
proof (cases "cls c")
  case None
  with assms show ?thesis by (simp add: get_dc_schema_def)
next
  case (Some d)
  show ?thesis
  proof (cases "c = root st")
    case True
    show ?thesis
    proof (cases "seen_root st")
      case seen: True
      with assms Some True have "s = dict_merge (ref_fragment ''#'') (schema a)"
        by (simp add: get_dc_schema_def)
      then show ?thesis
        by (simp add: keys_simps ref_fragment_def no_default_in_schema)
    next
      case False
      with assms True obtain d' where
        "create_dc_schema gfs d' (st\<lparr>seen_root := True\<rparr>) = Ok (s, st')"
        by (rule get_dc_schema_root_first [where dc = c])
      from create_dc_schema_keys(2) [OF this] no_default_in_schema [of "config_annotation d'"]
      show ?thesis by auto
    qed
  next
    case False
    with assms Some have "s = dict_merge (ref_fragment (''#/$defs/'' @ dc_name d)) (schema a)"
      by (auto simp: get_dc_schema_def bind_eq_Ok)
    then show ?thesis
      by (simp add: keys_simps ref_fragment_def no_default_in_schema)
  qed
qed

lemmas method_defs =
  get_union_schema_def get_literal_schema_def get_dict_schema_def get_list_schema_def
  get_tuple_schema_def get_set_schema_def get_none_schema_def get_str_schema_def
  get_bool_schema_def get_int_schema_def get_number_schema_def get_enum_schema_def
  get_date_schema_def get_datetime_schema_def

lemma get_field_schema_missing_no_default:
  "get_field_schema n cls ty MISSING a st = Ok (s, st') \<Longrightarrow> ''default'' \<notin> set (dict_keys s)"
proof (induction n arbitrary: ty a st s st')
  case 0
  then show ?case by simp
next
  case (Suc n)
  show ?case
  proof (cases ty)
    case (TDataclass c)
    with Suc.prems have "get_dc_schema (get_field_schema n cls) cls c a st = Ok (s, st')"
      by simp
    then show ?thesis by (rule get_dc_schema_no_default)
  next
    case (TAnnotated base payloads)
    with Suc.prems have "get_field_schema n cls base MISSING (hd payloads) st = Ok (s, st')"
      by (simp add: get_annotated_schema_def split: if_splits)
    then show ?thesis by (rule Suc.IH)
  qed (use Suc.prems in \<open>auto simp: method_defs bind_eq_Ok keys_simps no_default_in_schema
         ref_fragment_def Let_def split: if_splits\<close>)
qed

lemma create_dc_fields_other:
  "create_dc_fields gfs fs props req st = Ok ((props', req'), st') \<Longrightarrow>
   k \<notin> field_name ` set fs \<Longrightarrow> dict_get props' k = dict_get props k"
proof (induction fs arbitrary: props req st)
  case Nil
  then show ?case by simp
next
  case (Cons f fs)
  from Cons.prems(1) obtain s st1 where
    "create_dc_fields gfs fs (dict_set props (field_name f) (PDict s))
       (if \<not> field_is_optional f then req @ [PStr (field_name f)] else req) st1
     = Ok ((props', req'), st')"
    by (auto simp: bind_eq_Ok)
  from Cons.IH [OF this] Cons.prems(2) show ?case
    by (simp add: dict_get_dict_set)
qed

lemma create_dc_fields_property:
  "create_dc_fields gfs fs props req st = Ok ((props', req'), st') \<Longrightarrow>
   f \<in> set fs \<Longrightarrow> distinct (map field_name fs) \<Longrightarrow>
   \<exists>s st1 st2. gfs (field_type f) (field_default f) SchemaAnnotation st1 = Ok (s, st2)
      \<and> dict_get props' (field_name f) = Some (PDict s)"
proof (induction fs arbitrary: props req st)
  case Nil
  then show ?case by simp
next
  case (Cons g fs)
  from Cons.prems(1) obtain s st1 where
    g: "gfs (field_type g) (field_default g) SchemaAnnotation st = Ok (s, st1)" and
    rest: "create_dc_fields gfs fs (dict_set props (field_name g) (PDict s))
       (if \<not> field_is_optional g then req @ [PStr (field_name g)] else req) st1
     = Ok ((props', req'), st')"
    by (auto simp: bind_eq_Ok)
  show ?case
  proof (cases "f = g")
    case True
    from Cons.prems(3) have "field_name g \<notin> field_name ` set fs" by simp
    from create_dc_fields_other [OF rest this]
    have "dict_get props' (field_name g) = Some (PDict s)"
      by (simp add: dict_get_dict_set)
    with g True show ?thesis by blast
  next
    case False
    with Cons.prems have "f \<in> set fs" "distinct (map field_name fs)" by simp_all
    from Cons.IH [OF rest this] show ?thesis .
  qed
qed

text \<open>
  C10. A field with a default factory and no default value has a property fragment
  without \<open>"default"\<close>, and its name is not in \<open>required\<close>.
\<close>

theorem default_factory_renders_no_default:
  assumes "create_dc_schema (get_field_schema n cls) dc st = Ok (s, st')"
    and "f \<in> set (dc_fields dc)"
    and "distinct (map field_name (dc_fields dc))"
    and "field_default f = MISSING"
    and "field_default_factory f \<noteq> MISSING"
  shows "\<exists>props p. dict_get s ''properties'' = Some (PDict props)
      \<and> dict_get props (field_name f) = Some (PDict p)
      \<and> dict_get p ''default'' = None
      \<and> (\<forall>req. dict_get s ''required'' = Some (PList req) \<longrightarrow> PStr (field_name f) \<notin> set req)"
proof -
  from assms(1) obtain props req where
    fs: "create_dc_fields (get_field_schema n cls) (dc_fields dc) [] [] st = Ok ((props, req), st')" and
    s: "s = (if req = [] then dict_pop (object_schema dc props req) ''required''
             else object_schema dc props req)"
    by (rule create_dc_schema_Ok)
  have props: "dict_get s ''properties'' = Some (PDict props)"
    by (simp add: s dict_get_pop object_schema_properties)
  from create_dc_fields_property [OF fs assms(2,3)] assms(4) obtain p st1 st2 where
    p: "get_field_schema n cls (field_type f) MISSING SchemaAnnotation st1 = Ok (p, st2)" and
    get: "dict_get props (field_name f) = Some (PDict p)"
    by auto
  have nodef: "dict_get p ''default'' = None"
    using get_field_schema_missing_no_default [OF p] by (simp add: dict_get_None_iff)
  have req: "req = map (\<lambda>f. PStr (field_name f))
               (filter (\<lambda>f. \<not> field_is_optional f) (dc_fields dc))"
    using create_dc_fields_required [OF fs] by simp
  have opt: "field_is_optional f"
    using assms(5) by (simp add: field_is_optional_def)
  have notin: "PStr (field_name f) \<notin> set req"
  proof
    assume "PStr (field_name f) \<in> set req"
    then obtain g where g: "g \<in> set (dc_fields dc)" "\<not> field_is_optional g"
      "field_name g = field_name f"
      by (auto simp: req)
    with assms(2,3) have "g = f"
      by (meson distinct_map inj_onD)
    with g opt show False by simp
  qed
  have "dict_get s ''required'' = Some (PList r) \<Longrightarrow> r = req" for r
    by (simp add: s dict_get_pop object_schema_required split: if_splits)
  with notin props get nodef show ?thesis by blast
qed


theorem default_factory_renders_no_default_witness:
  "\<exists>props p. dict_get [(''type'', PStr ''object''), (''title'', PStr ''Person''),
            (''description'', PStr ''a person''),
            (''properties'', PDict
               [(''nick'', PDict [(''anyOf'', PList [PDict [(''type'', PStr ''string'')],
                                                      PDict [(''type'', PStr ''null'')]])]),
                (''age'', PDict [(''type'', PStr ''integer''), (''default'', PInt 42)]),
                (''tags'', PDict [(''type'', PStr ''array''),
                                  (''items'', PDict [(''type'', PStr ''string'')])]),
                (''born'', PDict [(''type'', PStr ''string''), (''format'', PStr ''date'')])]),
            (''required'', PList [PStr ''nick''])] ''properties'' = Some (PDict props)
      \<and> dict_get props ''tags'' = Some (PDict p)
      \<and> dict_get p ''default'' = None"
proof -
  let ?tags = "\<lparr>field_name = ''tags'', field_type = TList [TStr],
         field_default = MISSING, field_default_factory = Default (PObject ''list'')\<rparr>"
  have h: "create_dc_schema (get_field_schema 2 Map.empty) Person (session0 0)
     = Ok ([(''type'', PStr ''object''), (''title'', PStr ''Person''),
            (''description'', PStr ''a person''),
            (''properties'', PDict
               [(''nick'', PDict [(''anyOf'', PList [PDict [(''type'', PStr ''string'')],
                                                      PDict [(''type'', PStr ''null'')]])]),
                (''age'', PDict [(''type'', PStr ''integer''), (''default'', PInt 42)]),
                (''tags'', PDict [(''type'', PStr ''array''),
                                  (''items'', PDict [(''type'', PStr ''string'')])]),
                (''born'', PDict [(''type'', PStr ''string''), (''format'', PStr ''date'')])]),
            (''required'', PList [PStr ''nick''])], session0 0)"
    by code_simp
  have f: "?tags \<in> set (dc_fields Person)" by (simp add: Person_def)
  have d: "distinct (map field_name (dc_fields Person))" by (simp add: Person_def)
  have m: "field_default ?tags = MISSING" by simp
  have fac: "field_default_factory ?tags \<noteq> MISSING" by simp
  from default_factory_renders_no_default [OF h f d m fac] obtain props p where
    "dict_get [(''type'', PStr ''object''), (''title'', PStr ''Person''),
            (''description'', PStr ''a person''),
            (''properties'', PDict
               [(''nick'', PDict [(''anyOf'', PList [PDict [(''type'', PStr ''string'')],
                                                      PDict [(''type'', PStr ''null'')]])]),
                (''age'', PDict [(''type'', PStr ''integer''), (''default'', PInt 42)]),
                (''tags'', PDict [(''type'', PStr ''array''),
                                  (''items'', PDict [(''type'', PStr ''string'')])]),
                (''born'', PDict [(''type'', PStr ''string''), (''format'', PStr ''date'')])]),
            (''required'', PList [PStr ''nick''])] ''properties'' = Some (PDict props)"
    "dict_get props (field_name ?tags) = Some (PDict p)"
    "dict_get p ''default'' = None"
    by blast
  then have "dict_get props ''tags'' = Some (PDict p)" by simp
  with \<open>dict_get _ ''properties'' = Some (PDict props)\<close> \<open>dict_get p ''default'' = None\<close>
  show ?thesis by blast
qed


section \<open>The two ways to build metadata\<close>

lemma sequence_roundtrip:
  assumes "\<And>x. x \<in> set xs \<Longrightarrow> \<exists>j. f x = Inr j \<and> g j = x"
  shows "\<exists>js. sequence (map f xs) = Inr js \<and> map g js = xs"
  using assms
proof (induction xs)
  case Nil
  then show ?case by simp
next
  case (Cons x xs)
  from Cons.prems obtain j where j: "f x = Inr j" "g j = x" by auto
  from Cons have "\<exists>js. sequence (map f xs) = Inr js \<and> map g js = xs" by auto
  then obtain js where "sequence (map f xs) = Inr js" "map g js = xs" by blast
  with j show ?case by simp
qed

lemma json_roundtrip: "json_value v \<Longrightarrow> \<exists>j. json_dumps v = Inr j \<and> json_loads j = v"
proof (induction v)
  case (PList xs)
  then have "\<And>x. x \<in> set xs \<Longrightarrow> \<exists>j. json_dumps x = Inr j \<and> json_loads j = x"
    by (simp add: list_all_iff)
  from sequence_roundtrip [OF this] obtain js where
    "sequence (map json_dumps xs) = Inr js" "map json_loads js = xs"
    by blast
  then show ?case by simp
next
  case (PDict d)
  let ?f = "\<lambda>(k, v). case json_dumps v of Inl e \<Rightarrow> Inl e | Inr j \<Rightarrow> Inr (k, j)"
  let ?g = "\<lambda>(k, j). (k, json_loads j)"
  have "\<exists>j. ?f x = Inr j \<and> ?g j = x" if "x \<in> set d" for x
  proof -
    obtain k v where x: "x = (k, v)" by (cases x)
    with that PDict.prems have jv: "json_value v" by (auto simp: list_all_iff)
    from x have "v \<in> Basic_BNFs.snds x" by simp
    from PDict.IH [OF that this jv] obtain j where "json_dumps v = Inr j" "json_loads j = v"
      by blast
    with x show ?thesis by simp
  qed
  from sequence_roundtrip [of d ?f ?g, OF this] obtain js where
    "sequence (map ?f d) = Inr js" "map ?g js = d"
    by blast
  then show ?case by simp
qed simp_all

lemma json_value_opt:
  "json_value (opt PStr s)" "json_value (opt PInt i)" "json_value (opt PBool b)"
proof -
  show "json_value (opt PStr s)" by (cases s) simp_all
  show "json_value (opt PInt i)" by (cases i) simp_all
  show "json_value (opt PBool b)" by (cases b) simp_all
qed

lemma map_rename_filter:
  "map (\<lambda>kv. (f (fst kv), snd kv)) (filter (\<lambda>kv. snd kv \<noteq> PNone) xs) =
   filter (\<lambda>kv. snd kv \<noteq> PNone) (map (\<lambda>kv. (f (fst kv), snd kv)) xs)"
  by (induction xs) auto

text \<open>
  C6, as claimed: for every assignment of the optional fields the two styles give equal
  keyword mappings. With a \<open>Fraction\<close> as \<open>minimum\<close> the function \<open>annotation\<close> raises
  \<open>TypeError\<close> where \<open>SchemaAnnotation.schema\<close> returns a mapping, and with a tuple among
  the examples the function gives a list where the value object keeps the tuple.
\<close>

theorem metadata_styles_counterexample:
  "annotation None None None None None None None None
     (Some (NumOther ''Fraction(3, 2)'')) None None None None = Inl TypeError
   \<and> schema (SchemaAnnotation\<lparr>minimum := Some (NumOther ''Fraction(3, 2)'')\<rparr>)
       = [(''minimum'', PObject ''Fraction(3, 2)'')]
   \<and> annotation None None (Some [PTuple [PInt 1, PInt 2]]) None None None None None
       None None None None None = Inr (JObj [(''examples'', JArr [JArr [JInt 1, JInt 2]])])
   \<and> load_extra (Some (JObj [(''examples'', JArr [JArr [JInt 1, JInt 2]])]))
       = PDict [(''examples'', PList [PList [PInt 1, PInt 2]])]
   \<and> schema (SchemaAnnotation\<lparr>examples := Some [PTuple [PInt 1, PInt 2]]\<rparr>)
       = [(''examples'', PList [PTuple [PInt 1, PInt 2]])]"
  by code_simp

text \<open>
  C6, amended. For every assignment of the thirteen fields the two styles share, with
  examples and numeric bounds that JSON carries unchanged, \<open>annotation\<close> succeeds and what
  \<open>json.loads\<close> reads back is the mapping \<open>SchemaAnnotation.schema\<close> returns for the same
  assignment (same keys, such as \<open>minLength\<close>, same values, same order); no value of the
  mapping is \<open>None\<close>.
\<close>

theorem metadata_styles_agree:
  assumes "min_items a = None" and "max_items a = None" and "unique_items a = None"
    and "case examples a of None \<Rightarrow> True | Some xs \<Rightarrow> list_all json_value xs"
    and "list_all (\<lambda>n. case n of None \<Rightarrow> True | Some x \<Rightarrow> json_number x)
           [minimum a, maximum a, exclusive_minimum a, exclusive_maximum a, multiple_of a]"
  shows "(\<exists>j. annotation (title a) (description a) (examples a) (deprecated a) (min_length a)
             (max_length a) (pattern a) (format a) (minimum a) (maximum a)
             (exclusive_minimum a) (exclusive_maximum a) (multiple_of a) = Inr j
           \<and> load_extra (Some j) = PDict (schema a))
       \<and> PNone \<notin> snd ` set (schema a)"
proof
  let ?extra = "annotation_extra (title a) (description a) (examples a) (deprecated a)
      (min_length a) (max_length a) (pattern a) (format a) (minimum a) (maximum a)
      (exclusive_minimum a) (exclusive_maximum a) (multiple_of a)"
  let ?nn = "\<lambda>kv::string \<times> pyval. snd kv \<noteq> PNone"
  have renamed: "map (\<lambda>kv. (key_map (fst kv), snd kv)) (asdict a) =
      ?extra @ [(''minItems'', PNone), (''maxItems'', PNone), (''uniqueItems'', PNone)]"
    using assms(1-3) by (simp add: asdict_def annotation_extra_def key_map_def)
  have "schema a = filter ?nn (map (\<lambda>kv. (key_map (fst kv), snd kv)) (asdict a))"
    unfolding schema_def by (rule map_rename_filter)
  also have "\<dots> = filter ?nn ?extra"
    unfolding renamed by simp
  finally have same: "schema a = filter ?nn ?extra" .
  have num: "json_value (opt number_val n)" if "case n of None \<Rightarrow> True | Some x \<Rightarrow> json_number x" for n
    using that by (cases n; simp) (rename_tac x, case_tac x; simp)
  have ex: "json_value (opt PList (examples a))"
    using assms(4) by (cases "examples a") simp_all
  from assms(5) have nums:
    "json_value (opt number_val (minimum a))" "json_value (opt number_val (maximum a))"
    "json_value (opt number_val (exclusive_minimum a))"
    "json_value (opt number_val (exclusive_maximum a))"
    "json_value (opt number_val (multiple_of a))"
    by (simp_all add: num)
  have "list_all (\<lambda>(k, v). json_value v) ?extra"
    by (simp add: annotation_extra_def json_value_opt ex nums)
  then have "list_all (\<lambda>(k, v). json_value v) (filter ?nn ?extra)"
    by (simp add: list_all_iff)
  then have "json_value (PDict (filter ?nn ?extra))" by simp
  from json_roundtrip [OF this] obtain j where
    "json_dumps (PDict (filter ?nn ?extra)) = Inr j" "json_loads j = PDict (filter ?nn ?extra)"
    by blast
  then show "\<exists>j. annotation (title a) (description a) (examples a) (deprecated a) (min_length a)
             (max_length a) (pattern a) (format a) (minimum a) (maximum a)
             (exclusive_minimum a) (exclusive_maximum a) (multiple_of a) = Inr j
           \<and> load_extra (Some j) = PDict (schema a)"
    by (simp add: annotation_def Let_def load_extra_def same)
  show "PNone \<notin> snd ` set (schema a)"
    by (auto simp: schema_def)
qed

theorem metadata_styles_agree_witness:
  "annotation None None (Some [PStr ''abc'', PList [PInt 1]]) None (Some 3) None None None
      (Some (NumInt 1)) None None (Some (NumFloat 11 0)) None
     = Inr (JObj [(''examples'', JArr [JStr ''abc'', JArr [JInt 1]]), (''minLength'', JInt 3),
                  (''minimum'', JInt 1), (''exclusiveMaximum'', JFloat 11 0)])
   \<and> load_extra (Some (JObj [(''examples'', JArr [JStr ''abc'', JArr [JInt 1]]),
                  (''minLength'', JInt 3), (''minimum'', JInt 1),
                  (''exclusiveMaximum'', JFloat 11 0)]))
     = PDict (schema (SchemaAnnotation\<lparr>examples := Some [PStr ''abc'', PList [PInt 1]],
                min_length := Some 3, minimum := Some (NumInt 1),
                exclusive_maximum := Some (NumFloat 11 0)\<rparr>))"
proof -
  let ?a = "SchemaAnnotation\<lparr>examples := Some [PStr ''abc'', PList [PInt 1]],
                min_length := Some 3, minimum := Some (NumInt 1),
                exclusive_maximum := Some (NumFloat 11 0)\<rparr>"
  let ?j = "JObj [(''examples'', JArr [JStr ''abc'', JArr [JInt 1]]), (''minLength'', JInt 3),
                  (''minimum'', JInt 1), (''exclusiveMaximum'', JFloat 11 0)]"
  have 1: "min_items ?a = None" "max_items ?a = None" "unique_items ?a = None"
    by (simp_all add: SchemaAnnotation_def)
  have 2: "case examples ?a of None \<Rightarrow> True | Some xs \<Rightarrow> list_all json_value xs"
    by simp
  have 3: "list_all (\<lambda>n. case n of None \<Rightarrow> True | Some x \<Rightarrow> json_number x)
           [minimum ?a, maximum ?a, exclusive_minimum ?a, exclusive_maximum ?a, multiple_of ?a]"
    by (simp add: SchemaAnnotation_def)
  have h: "annotation None None (Some [PStr ''abc'', PList [PInt 1]]) None (Some 3) None None None
      (Some (NumInt 1)) None None (Some (NumFloat 11 0)) None = Inr ?j"
    by code_simp
  from metadata_styles_agree [OF 1 2 3] obtain j where
    "annotation (title ?a) (description ?a) (examples ?a) (deprecated ?a) (min_length ?a)
             (max_length ?a) (pattern ?a) (format ?a) (minimum ?a) (maximum ?a)
             (exclusive_minimum ?a) (exclusive_maximum ?a) (multiple_of ?a) = Inr j"
    "load_extra (Some j) = PDict (schema ?a)"
    by blast
  moreover have "annotation (title ?a) (description ?a) (examples ?a) (deprecated ?a) (min_length ?a)
             (max_length ?a) (pattern ?a) (format ?a) (minimum ?a) (maximum ?a)
             (exclusive_minimum ?a) (exclusive_maximum ?a) (multiple_of ?a)
      = annotation None None (Some [PStr ''abc'', PList [PInt 1]]) None (Some 3) None None None
      (Some (NumInt 1)) None None (Some (NumFloat 11 0)) None"
    by (simp add: SchemaAnnotation_def)
  ultimately have "load_extra (Some ?j) = PDict (schema ?a)"
    using h by simp
  with h show ?thesis by blast
qed

section \<open>What a call does to the session\<close>

lemma step_ok_refl: "step_ok cls st st"
  by (simp add: step_ok_def)

lemma step_ok_trans: "step_ok cls a b \<Longrightarrow> step_ok cls b c \<Longrightarrow> step_ok cls a c"
  unfolding step_ok_def by (elim conjE, intro conjI) auto

lemma step_ok_seen: "step_ok cls st (st\<lparr>seen_root := True\<rparr>)"
  by (simp add: step_ok_def)

lemma step_ok_keys:
  assumes "step_ok cls st st'"
  shows "set (dict_keys (defs st)) \<subseteq> set (dict_keys (defs st'))"
proof
  fix k assume "k \<in> set (dict_keys (defs st))"
  then obtain v where "dict_get (defs st) k = Some v"
    using dict_get_None_iff [of "defs st" k] by auto
  with assms have "dict_get (defs st') k = Some v" by (simp add: step_ok_def)
  then show "k \<in> set (dict_keys (defs st'))" by (rule dict_get_Some_key)
qed

lemma step_ok_root: "step_ok cls st st' \<Longrightarrow> root st' = root st"
  by (simp add: step_ok_def)

lemma step_ok_seen_root: "step_ok cls st st' \<Longrightarrow> seen_root st \<Longrightarrow> seen_root st'"
  by (simp add: step_ok_def)

lemma set_dict_set: "set (dict_set d k v) \<subseteq> insert (k, v) (set d)"
  by (induction d) (auto split: if_splits)

lemma class_entry_mono: "class_entry cls r K k v \<Longrightarrow> K \<subseteq> K' \<Longrightarrow> class_entry cls r K' k v"
  unfolding class_entry_def by blast

lemma entries_ok_dict_set:
  assumes "entries_ok cls r ds"
    and "enum_entry k v \<or> class_entry cls r (insert k (set (dict_keys ds))) k v"
  shows "entries_ok cls r (dict_set ds k v)"
  unfolding entries_ok_def
proof
  fix kv assume kv: "kv \<in> set (dict_set ds k v)"
  have keys: "set (dict_keys (dict_set ds k v)) = insert k (set (dict_keys ds))"
    by (rule keys_dict_set)
  from kv set_dict_set [of ds k v] consider "kv = (k, v)" | "kv \<in> set ds" by blast
  then show "enum_entry (fst kv) (snd kv) \<or>
      class_entry cls r (set (dict_keys (dict_set ds k v))) (fst kv) (snd kv)"
  proof cases
    case 1
    with assms(2) show ?thesis by (simp add: keys)
  next
    case 2
    with assms(1) have "enum_entry (fst kv) (snd kv) \<or>
        class_entry cls r (set (dict_keys ds)) (fst kv) (snd kv)"
      by (simp add: entries_ok_def)
    then show ?thesis
      unfolding keys using class_entry_mono [of cls r "set (dict_keys ds)" "fst kv" "snd kv"
          "insert k (set (dict_keys ds))"]
      by blast
  qed
qed

lemma step_ok_insert:
  assumes "step_ok cls st st1"
    and "dict_get (defs st) k = None"
    and "seen_root st \<Longrightarrow> enum_entry k v \<or>
           class_entry cls (root st) (insert k (set (dict_keys (defs st1)))) k v"
  shows "step_ok cls st (st1\<lparr>defs := dict_set (defs st1) k v\<rparr>)"
  unfolding step_ok_def
proof (intro conjI allI impI)
  show "root (st1\<lparr>defs := dict_set (defs st1) k v\<rparr>) = root st"
    using assms(1) by (simp add: step_ok_def)
  show "seen_root (st1\<lparr>defs := dict_set (defs st1) k v\<rparr>)" if "seen_root st"
    using assms(1) that by (simp add: step_ok_def)
  show "dict_get (defs (st1\<lparr>defs := dict_set (defs st1) k v\<rparr>)) k' = Some v'"
    if "dict_get (defs st) k' = Some v'" for k' v'
  proof -
    from that assms(2) have "k' \<noteq> k" by auto
    moreover from assms(1) that have "dict_get (defs st1) k' = Some v'"
      by (simp add: step_ok_def)
    ultimately show ?thesis by (simp add: dict_get_dict_set)
  qed
  show "distinct (dict_keys (defs (st1\<lparr>defs := dict_set (defs st1) k v\<rparr>)))"
    if "distinct (dict_keys (defs st))"
    using assms(1) that by (simp add: step_ok_def distinct_dict_set)
  show "entries_ok cls (root st) (defs (st1\<lparr>defs := dict_set (defs st1) k v\<rparr>))"
    if "seen_root st" "entries_ok cls (root st) (defs st)"
  proof -
    from assms(1) that have "entries_ok cls (root st) (defs st1)"
      by (simp add: step_ok_def)
    from entries_ok_dict_set [OF this assms(3) [OF that(1)]] show ?thesis by simp
  qed
qed

text \<open>No successful call is on a type that holds a mapping with a key type other than
  \<open>str\<close>.\<close>

lemma list_two: "length xs = 2 \<Longrightarrow> xs = [hd xs, xs ! 1]"
  by (cases xs; cases "tl xs") auto

lemma gfs_rejectsD:
  "gfs_rejects gfs \<Longrightarrow> gfs ty d a st = Ok (s, st') \<Longrightarrow> \<not> has_bad_mapping ty"
  unfolding gfs_rejects_def by blast

lemma compile_args_rejects:
  assumes "gfs_rejects gfs"
  shows "compile_args gfs args st = Ok (ss, st') \<Longrightarrow> \<not> list_ex has_bad_mapping args"
proof (induction args arbitrary: st ss)
  case Nil
  then show ?case by simp
next
  case (Cons arg args)
  from Cons.prems obtain s st1 ss' where
    1: "gfs arg MISSING SchemaAnnotation st = Ok (s, st1)" and
    2: "compile_args gfs args st1 = Ok (ss', st')"
    by (auto simp: bind_eq_Ok)
  from assms 1 have "\<not> has_bad_mapping arg" by (rule gfs_rejectsD)
  with Cons.IH [OF 2] show ?case by simp
qed

lemma get_field_schema_rejects: "gfs_rejects (get_field_schema n cls)"
proof (induction n)
  case 0
  show ?case by (simp add: gfs_rejects_def)
next
  case (Suc n)
  have rec: "\<not> has_bad_mapping t" if "get_field_schema n cls t d a st = Ok (s, st')"
    for t d a st s st'
    using Suc that by (rule gfs_rejectsD)
  show ?case
    unfolding gfs_rejects_def
  proof (intro allI impI)
    fix ty d a st s st'
    assume ok: "get_field_schema (Suc n) cls ty d a st = Ok (s, st')"
    show "\<not> has_bad_mapping ty"
    proof (cases ty)
      case (TUnion args)
      with ok obtain ss where "compile_args (get_field_schema n cls) args st = Ok (ss, st')"
        by (auto simp: get_union_schema_def bind_eq_Ok)
      from compile_args_rejects [OF Suc this] show ?thesis by (simp add: TUnion)
    next
      case (TAnnotated base payloads)
      with ok have "get_field_schema n cls base d (hd payloads) st = Ok (s, st')"
        by (simp add: get_annotated_schema_def split: if_splits)
      from rec [OF this] show ?thesis by (simp add: TAnnotated)
    next
      case (TDict args)
      with ok consider "args = []"
        | s1 where "get_field_schema n cls (args ! 1) MISSING SchemaAnnotation st = Ok (s1, st')"
            "length args = 2" "hd args = TStr"
        by (auto simp: get_dict_schema_def bind_eq_Ok split: if_splits)
      then show ?thesis
      proof cases
        case 1
        then show ?thesis by (simp add: TDict)
      next
        case 2
        from 2(2,3) have "args = [TStr, args ! 1]" using list_two [of args] by simp
        then obtain x where args: "args = [TStr, x]" by blast
        from rec [OF 2(1)] show ?thesis
          by (simp add: TDict args)
      qed
    next
      case (TList args)
      with ok consider "args = []"
        | s1 where "get_field_schema n cls (hd args) MISSING SchemaAnnotation st = Ok (s1, st')"
            "length args = 1"
        by (auto simp: get_list_schema_def bind_eq_Ok split: if_splits)
      then show ?thesis
      proof cases
        case 1
        then show ?thesis by (simp add: TList)
      next
        case 2
        from 2(2) obtain x where args: "args = [x]" by (cases args) auto
        from rec [OF 2(1)] show ?thesis
          by (simp add: TList args)
      qed
    next
      case (TSet args)
      with ok consider "args = []"
        | s1 where "get_field_schema n cls (hd args) MISSING SchemaAnnotation st = Ok (s1, st')"
            "length args = 1"
        by (auto simp: get_set_schema_def bind_eq_Ok split: if_splits)
      then show ?thesis
      proof cases
        case 1
        then show ?thesis by (simp add: TSet)
      next
        case 2
        from 2(2) obtain x where args: "args = [x]" by (cases args) auto
        from rec [OF 2(1)] show ?thesis
          by (simp add: TSet args)
      qed
    next
      case (TTuple args)
      with ok consider "args = []"
        | s1 where "get_field_schema n cls (hd args) MISSING SchemaAnnotation st = Ok (s1, st')"
            "length args = 2" "args ! 1 = TEllipsis"
        | ss where "compile_args (get_field_schema n cls) args st = Ok (ss, st')"
        by (auto simp: get_tuple_schema_def bind_eq_Ok split: if_splits)
      then show ?thesis
      proof cases
        case 1
        then show ?thesis by (simp add: TTuple)
      next
        case 2
        from 2(2,3) have "args = [hd args, TEllipsis]" using list_two [of args] by simp
        then obtain x where args: "args = [x, TEllipsis]" by blast
        from rec [OF 2(1)] show ?thesis
          by (simp add: TTuple args)
      next
        case 3
        from compile_args_rejects [OF Suc this] show ?thesis by (simp add: TTuple)
      qed
    qed simp_all
  qed
qed

lemma create_dc_fields_calls:
  "create_dc_fields gfs fs props req st = Ok (x, st') \<Longrightarrow> f \<in> set fs \<Longrightarrow>
   \<exists>s st1 st2. gfs (field_type f) (field_default f) SchemaAnnotation st1 = Ok (s, st2)"
proof (induction fs arbitrary: props req st)
  case Nil
  then show ?case by simp
next
  case (Cons g fs)
  from Cons.prems(1) obtain s st1 where
    g: "gfs (field_type g) (field_default g) SchemaAnnotation st = Ok (s, st1)" and
    rest: "create_dc_fields gfs fs (dict_set props (field_name g) (PDict s))
       (if \<not> field_is_optional g then req @ [PStr (field_name g)] else req) st1 = Ok (x, st')"
    by (auto simp: bind_eq_Ok)
  show ?case
  proof (cases "f = g")
    case True
    with g show ?thesis by blast
  next
    case False
    with Cons.prems(2) have "f \<in> set fs" by simp
    from Cons.IH [OF rest this] show ?thesis .
  qed
qed

lemma create_dc_schema_rejects:
  assumes "gfs_rejects gfs" and "create_dc_schema gfs d st = Ok (s, st')"
    and "f \<in> set (dc_fields d)"
  shows "\<not> has_bad_mapping (field_type f)"
proof -
  from assms(2) obtain props req where
    "create_dc_fields gfs (dc_fields d) [] [] st = Ok ((props, req), st')"
    by (rule create_dc_schema_Ok)
  from create_dc_fields_calls [OF this assms(3)] obtain s1 st1 st2 where
    "gfs (field_type f) (field_default f) SchemaAnnotation st1 = Ok (s1, st2)"
    by blast
  with assms(1) show ?thesis by (rule gfs_rejectsD)
qed


text \<open>Every successful call keeps the invariants and returns the closed form.\<close>

lemma gfs_okD:
  assumes "gfs_ok cls gfs" and "gfs ty d a st = Ok (s, st')"
  shows "step_ok cls st st'"
    and "set (named_refs cls (root st) ty) \<subseteq> set (dict_keys (defs st'))"
    and "seen_root st \<Longrightarrow> s = spec_fragment cls (root st) ty d a"
  using assms by (auto simp: gfs_ok_def call_ok_def)

lemma compile_args_ok:
  assumes "gfs_ok cls gfs"
  shows "compile_args gfs args st = Ok (ss, st') \<Longrightarrow>
         step_ok cls st st' \<and>
         set (concat (map (named_refs cls (root st)) args)) \<subseteq> set (dict_keys (defs st')) \<and>
         (seen_root st \<longrightarrow>
            ss = map (\<lambda>a. PDict (spec_fragment cls (root st) a MISSING SchemaAnnotation)) args)"
proof (induction args arbitrary: st ss)
  case Nil
  then show ?case by (simp add: step_ok_refl)
next
  case (Cons arg args)
  from Cons.prems obtain s st1 ss' where
    1: "gfs arg MISSING SchemaAnnotation st = Ok (s, st1)" and
    2: "compile_args gfs args st1 = Ok (ss', st')" and
    ss: "ss = PDict s # ss'"
    by (auto simp: bind_eq_Ok)
  note a = gfs_okD [OF assms 1]
  from Cons.IH [OF 2] have
    b1: "step_ok cls st1 st'" and
    b2: "set (concat (map (named_refs cls (root st1)) args)) \<subseteq> set (dict_keys (defs st'))" and
    b3: "seen_root st1 \<longrightarrow>
           ss' = map (\<lambda>a. PDict (spec_fragment cls (root st1) a MISSING SchemaAnnotation)) args"
    by blast+
  have r: "root st1 = root st" using a(1) by (rule step_ok_root)
  have step: "step_ok cls st st'" using a(1) b1 by (rule step_ok_trans)
  have refs: "set (concat (map (named_refs cls (root st)) (arg # args)))
      \<subseteq> set (dict_keys (defs st'))"
    using a(2) step_ok_keys [OF b1] b2 by (auto simp: r)
  have frag: "ss = map (\<lambda>a. PDict (spec_fragment cls (root st) a MISSING SchemaAnnotation))
      (arg # args)" if "seen_root st"
  proof -
    from a(1) that have "seen_root st1" by (rule step_ok_seen_root)
    with b3 a(3) [OF that] show ?thesis by (simp add: ss r)
  qed
  from step refs frag show ?case by blast
qed

lemma create_dc_fields_ok:
  assumes "gfs_ok cls gfs"
  shows "create_dc_fields gfs fs props req st = Ok ((props', req'), st') \<Longrightarrow>
         step_ok cls st st' \<and>
         (\<forall>f\<in>set fs. set (named_refs cls (root st) (field_type f)) \<subseteq> set (dict_keys (defs st'))) \<and>
         (seen_root st \<longrightarrow> props' = foldl (spec_property cls (root st)) props fs)"
proof (induction fs arbitrary: st props req)
  case Nil
  then show ?case by (simp add: step_ok_refl)
next
  case (Cons f fs)
  from Cons.prems obtain s st1 where
    1: "gfs (field_type f) (field_default f) SchemaAnnotation st = Ok (s, st1)" and
    2: "create_dc_fields gfs fs (dict_set props (field_name f) (PDict s))
         (if \<not> field_is_optional f then req @ [PStr (field_name f)] else req) st1
        = Ok ((props', req'), st')"
    by (auto simp: bind_eq_Ok)
  note a = gfs_okD [OF assms 1]
  from Cons.IH [OF 2] have
    b1: "step_ok cls st1 st'" and
    b2: "\<forall>g\<in>set fs. set (named_refs cls (root st1) (field_type g)) \<subseteq> set (dict_keys (defs st'))" and
    b3: "seen_root st1 \<longrightarrow>
           props' = foldl (spec_property cls (root st1))
                      (dict_set props (field_name f) (PDict s)) fs"
    by blast+
  have r: "root st1 = root st" using a(1) by (rule step_ok_root)
  have step: "step_ok cls st st'" using a(1) b1 by (rule step_ok_trans)
  have refs: "\<forall>g\<in>set (f # fs). set (named_refs cls (root st) (field_type g))
      \<subseteq> set (dict_keys (defs st'))"
    using a(2) step_ok_keys [OF b1] b2 by (auto simp: r)
  have frag: "props' = foldl (spec_property cls (root st)) props (f # fs)" if "seen_root st"
  proof -
    from a(1) that have "seen_root st1" by (rule step_ok_seen_root)
    with b3 a(3) [OF that] show ?thesis by (simp add: r spec_property_def)
  qed
  from step refs frag show ?case by blast
qed

lemma create_dc_schema_ok:
  assumes "gfs_ok cls gfs" and "create_dc_schema gfs d st = Ok (s, st')"
  shows "step_ok cls st st'"
    and "\<forall>f\<in>set (dc_fields d). set (named_refs cls (root st) (field_type f))
           \<subseteq> set (dict_keys (defs st'))"
    and "seen_root st \<Longrightarrow> s = spec_object cls (root st) d"
proof -
  from assms(2) obtain props req where
    fs: "create_dc_fields gfs (dc_fields d) [] [] st = Ok ((props, req), st')" and
    s: "s = (if req = [] then dict_pop (object_schema d props req) ''required''
             else object_schema d props req)"
    by (rule create_dc_schema_Ok)
  from create_dc_fields_ok [OF assms(1) fs] have
    1: "step_ok cls st st'" and
    2: "\<forall>f\<in>set (dc_fields d). set (named_refs cls (root st) (field_type f))
           \<subseteq> set (dict_keys (defs st'))" and
    3: "seen_root st \<longrightarrow> props = foldl (spec_property cls (root st)) [] (dc_fields d)"
    by blast+
  show "step_ok cls st st'" by (rule 1)
  show "\<forall>f\<in>set (dc_fields d). set (named_refs cls (root st) (field_type f))
           \<subseteq> set (dict_keys (defs st'))" by (rule 2)
  have req: "req = spec_required (dc_fields d)"
    using create_dc_fields_required [OF fs] by (simp add: spec_required_def)
  show "s = spec_object cls (root st) d" if "seen_root st"
    using 3 that by (simp add: s req spec_object_def Let_def)
qed

lemma get_dc_schema_ok:
  assumes "gfs_ok cls gfs" and "gfs_rejects gfs"
    and "get_dc_schema gfs cls c a st = Ok (s, st')"
  shows "call_ok cls (TDataclass c) dflt a st s st'"
proof (cases "cls c")
  case None
  with assms(3) show ?thesis by (simp add: get_dc_schema_def)
next
  case (Some d)
  show ?thesis
  proof (cases "c = root st")
    case True
    show ?thesis
    proof (cases "seen_root st")
      case seen: True
      with assms(3) Some True have "st' = st" "s = dict_merge (ref_fragment ''#'') (schema a)"
        by (simp_all add: get_dc_schema_def)
      with True show ?thesis by (simp add: call_ok_def step_ok_refl)
    next
      case False
      with assms(3) Some True have
        "create_dc_schema gfs d (st\<lparr>seen_root := True\<rparr>) = Ok (s, st')"
        by (simp add: get_dc_schema_def)
      from create_dc_schema_ok(1) [OF assms(1) this]
      have "step_ok cls (st\<lparr>seen_root := True\<rparr>) st'" .
      with step_ok_seen have "step_ok cls st st'" by (rule step_ok_trans)
      with True False show ?thesis by (simp add: call_ok_def)
    qed
  next
    case False
    have frag: "s = dict_merge (ref_fragment (''#/$defs/'' @ dc_name d)) (schema a)"
      using assms(3) Some False by (auto simp: get_dc_schema_def bind_eq_Ok)
    then have spec: "s = spec_fragment cls (root st) (TDataclass c) dflt a"
      using Some False by simp
    show ?thesis
    proof (cases "dict_get (defs st) (dc_name d) = None")
      case True
      from assms(3) Some False True obtain s1 st1 where
        1: "create_dc_schema gfs d st = Ok (s1, st1)" and
        2: "st' = st1\<lparr>defs := dict_set (defs st1) (dc_name d) (PDict s1)\<rparr>" and
        3: "s = dict_merge (ref_fragment (''#/$defs/'' @ dc_name d)) (schema a)"
        by (rule get_dc_schema_nonroot_new)
      note c = create_dc_schema_ok [OF assms(1) 1]
      have nb: "\<forall>f\<in>set (dc_fields d). \<not> has_bad_mapping (field_type f)"
        using create_dc_schema_rejects [OF assms(2) 1] by blast
      have "class_entry cls (root st) (insert (dc_name d) (set (dict_keys (defs st1))))
              (dc_name d) (PDict s1)" if "seen_root st"
        unfolding class_entry_def using Some False c(2) c(3) [OF that] nb by blast
      then have "step_ok cls st st'"
        unfolding 2 using c(1) True by (intro step_ok_insert) auto
      moreover have "set (named_refs cls (root st) (TDataclass c)) \<subseteq> set (dict_keys (defs st'))"
        using Some False by (simp add: 2 keys_dict_set)
      ultimately show ?thesis using spec by (simp add: call_ok_def)
    next
      case present: False
      from get_dc_schema_nonroot_old(1) [OF assms(3) Some False present] have "st' = st" .
      moreover from present have "dc_name d \<in> set (dict_keys (defs st))"
        by (simp add: dict_get_None_iff)
      ultimately show ?thesis using spec Some False by (simp add: call_ok_def step_ok_refl)
    qed
  qed
qed

lemma get_dict_schema_ok:
  assumes "gfs_ok cls gfs" and "get_dict_schema gfs args a st = Ok (s, st')"
  shows "call_ok cls (TDict args) dflt a st s st'"
proof -
  from assms(2) consider
      (empty) "args = []" "st' = st" "s = dict_merge [(''type'', PStr ''object'')] (schema a)"
    | (arg) s1 where "gfs (args ! 1) MISSING SchemaAnnotation st = Ok (s1, st')" "length args = 2"
        "hd args = TStr"
        "s = dict_merge [(''type'', PStr ''object''), (''additionalProperties'', PDict s1)] (schema a)"
    by (auto simp: get_dict_schema_def bind_eq_Ok split: if_splits)
  then show ?thesis
  proof cases
    case empty
    then show ?thesis by (simp add: call_ok_def step_ok_refl)
  next
    case arg
    note g = gfs_okD [OF assms(1) arg(1)]
    from arg(2,3) have "args = [TStr, args ! 1]" using list_two [of args] by simp
    then obtain x where args: "args = [TStr, x]" by blast
    from g show ?thesis
      unfolding args using arg(4) by (simp add: call_ok_def args)
  qed
qed

lemma get_list_schema_ok:
  assumes "gfs_ok cls gfs" and "get_list_schema gfs args a st = Ok (s, st')"
  shows "call_ok cls (TList args) dflt a st s st'"
proof -
  from assms(2) consider
      (empty) "args = []" "st' = st" "s = dict_merge [(''type'', PStr ''array'')] (schema a)"
    | (arg) s1 where "gfs (hd args) MISSING SchemaAnnotation st = Ok (s1, st')" "length args = 1"
        "s = dict_merge [(''type'', PStr ''array''), (''items'', PDict s1)] (schema a)"
    by (auto simp: get_list_schema_def bind_eq_Ok split: if_splits)
  then show ?thesis
  proof cases
    case empty
    then show ?thesis by (simp add: call_ok_def step_ok_refl)
  next
    case arg
    note g = gfs_okD [OF assms(1) arg(1)]
    from arg(2) obtain x where args: "args = [x]" by (cases args) auto
    from g show ?thesis
      unfolding args using arg(3) by (simp add: call_ok_def args)
  qed
qed

lemma get_set_schema_ok:
  assumes "gfs_ok cls gfs" and "get_set_schema gfs args a st = Ok (s, st')"
  shows "call_ok cls (TSet args) dflt a st s st'"
proof -
  from assms(2) consider
      (empty) "args = []" "st' = st"
        "s = dict_merge [(''type'', PStr ''array''), (''uniqueItems'', PBool True)] (schema a)"
    | (arg) s1 where "gfs (hd args) MISSING SchemaAnnotation st = Ok (s1, st')" "length args = 1"
        "s = dict_merge [(''type'', PStr ''array''), (''items'', PDict s1),
                         (''uniqueItems'', PBool True)] (schema a)"
    by (auto simp: get_set_schema_def bind_eq_Ok split: if_splits)
  then show ?thesis
  proof cases
    case empty
    then show ?thesis by (simp add: call_ok_def step_ok_refl)
  next
    case arg
    note g = gfs_okD [OF assms(1) arg(1)]
    from arg(2) obtain x where args: "args = [x]" by (cases args) auto
    from g show ?thesis
      unfolding args using arg(3) by (simp add: call_ok_def args)
  qed
qed

lemma get_tuple_schema_ok:
  assumes "gfs_ok cls gfs" and "get_tuple_schema gfs args dflt a st = Ok (s, st')"
  shows "call_ok cls (TTuple args) dflt a st s st'"
proof -
  let ?s0 = "tuple_schema0 dflt a"
  from assms(2) obtain s0 where
    s0: "(case dflt of
            MISSING \<Rightarrow> Ok (schema a)
          | Default v \<Rightarrow> (case py_list v of
                            Inl e \<Rightarrow> Raise e
                          | Inr l \<Rightarrow> Ok (dict_merge [(''default'', l)] (schema a)))) = Ok s0" and
    rest: "(if args \<noteq> [] \<and> length args = 2 \<and> args ! 1 = TEllipsis then
         bind (gfs (hd args) MISSING SchemaAnnotation st) (\<lambda>(s, st1).
         Ok (dict_merge [(''type'', PStr ''array''), (''items'', PDict s)] s0, st1))
       else if args \<noteq> [] then
         bind (compile_args gfs args st) (\<lambda>(ss, st1).
         Ok (dict_merge [(''type'', PStr ''array''), (''prefixItems'', PList ss),
                         (''minItems'', PInt (int (length args))),
                         (''maxItems'', PInt (int (length args)))] s0, st1))
       else Ok (dict_merge [(''type'', PStr ''array'')] s0, st)) = Ok (s, st')"
    unfolding get_tuple_schema_def bind_eq_Ok by blast
  have s0eq: "s0 = ?s0"
    using s0 by (auto simp: tuple_schema0_def split: default.splits sum.splits)
  consider (empty) "args = []"
    | (var) "args \<noteq> []" "length args = 2" "args ! 1 = TEllipsis"
    | (fixed) "args \<noteq> []" "\<not> (length args = 2 \<and> args ! 1 = TEllipsis)"
    by blast
  then show ?thesis
  proof cases
    case empty
    with rest s0eq show ?thesis by (simp add: call_ok_def step_ok_refl)
  next
    case var
    with rest obtain s1 where
      1: "gfs (hd args) MISSING SchemaAnnotation st = Ok (s1, st')" and
      2: "s = dict_merge [(''type'', PStr ''array''), (''items'', PDict s1)] s0"
      by (auto simp: bind_eq_Ok)
    note g = gfs_okD [OF assms(1) 1]
    from var(2,3) have "args = [hd args, TEllipsis]" using list_two [of args] by simp
    then obtain x where args: "args = [x, TEllipsis]" by blast
    from g show ?thesis
      unfolding args using 2 s0eq by (simp add: call_ok_def args)
  next
    case fixed
    with rest obtain ss where
      c: "compile_args gfs args st = Ok (ss, st')" and
      s: "s = dict_merge [(''type'', PStr ''array''), (''prefixItems'', PList ss),
                         (''minItems'', PInt (int (length args))),
                         (''maxItems'', PInt (int (length args)))] s0"
      by (auto simp: bind_eq_Ok split: if_splits)
    from compile_args_ok [OF assms(1) c] have
      1: "step_ok cls st st'" and
      2: "set (concat (map (named_refs cls (root st)) args)) \<subseteq> set (dict_keys (defs st'))" and
      3: "seen_root st \<longrightarrow>
            ss = map (\<lambda>a. PDict (spec_fragment cls (root st) a MISSING SchemaAnnotation)) args"
      by blast+
    have "s = spec_fragment cls (root st) (TTuple args) dflt a" if "seen_root st"
      using 3 that fixed s s0eq by auto
    with 1 2 show ?thesis by (simp add: call_ok_def)
  qed
qed

lemma get_union_schema_ok:
  assumes "gfs_ok cls gfs" and "get_union_schema gfs args dflt a st = Ok (s, st')"
  shows "call_ok cls (TUnion args) dflt a st s st'"
proof -
  from assms(2) obtain ss where
    c: "compile_args gfs args st = Ok (ss, st')" and
    s: "s = dict_merge (dict_merge [(''anyOf'', PList ss)] (default_entry dflt)) (schema a)"
    by (auto simp: get_union_schema_def bind_eq_Ok)
  from compile_args_ok [OF assms(1) c] have
    1: "step_ok cls st st'" and
    2: "set (concat (map (named_refs cls (root st)) args)) \<subseteq> set (dict_keys (defs st'))" and
    3: "seen_root st \<longrightarrow>
          ss = map (\<lambda>a. PDict (spec_fragment cls (root st) a MISSING SchemaAnnotation)) args"
    by blast+
  from 1 2 3 s show ?thesis by (simp add: call_ok_def)
qed

lemma get_enum_schema_state:
  assumes "get_enum_schema name members dflt a st = Ok (s, st')"
  shows "st' = (if dict_get (defs st) name = None
                then st\<lparr>defs := dict_set (defs st) name
                       (PDict [(''title'', PStr name), (''enum'', PList (map snd members))])\<rparr>
                else st)"
    and "s = dict_merge (dict_merge (ref_fragment (''#/$defs/'' @ name)) (enum_default dflt))
               (schema a)"
  using assms
  by (auto simp: get_enum_schema_def enum_default_def Let_def
      split: default.splits sum.splits if_splits)

lemma get_enum_schema_ok:
  assumes "get_enum_schema name members dflt a st = Ok (s, st')"
  shows "call_ok cls (TEnum name False members) dflt a st s st'"
proof -
  note e = get_enum_schema_state [OF assms]
  let ?v = "PDict [(''title'', PStr name), (''enum'', PList (map snd members))]"
  have "enum_entry name ?v" by (auto simp: enum_entry_def)
  then have "step_ok cls st (st\<lparr>defs := dict_set (defs st) name ?v\<rparr>)"
    if "dict_get (defs st) name = None"
    using that by (intro step_ok_insert step_ok_refl) auto
  then have step: "step_ok cls st st'"
    by (simp add: e(1) step_ok_refl)
  have "name \<in> set (dict_keys (defs st'))"
    by (simp add: e(1) keys_dict_set dict_get_None_iff)
  with step e(2) show ?thesis by (simp add: call_ok_def)
qed

lemma get_field_schema_ok: "gfs_ok cls (get_field_schema n cls)"
proof (induction n)
  case 0
  show ?case by (simp add: gfs_ok_def)
next
  case (Suc n)
  show ?case
    unfolding gfs_ok_def
  proof (intro allI impI)
    fix ty d a st s st'
    assume ok: "get_field_schema (Suc n) cls ty d a st = Ok (s, st')"
    show "call_ok cls ty d a st s st'"
    proof (cases ty)
      case (TDataclass c)
      with ok have "get_dc_schema (get_field_schema n cls) cls c a st = Ok (s, st')" by simp
      from get_dc_schema_ok [OF Suc get_field_schema_rejects this] show ?thesis by (simp add: TDataclass)
    next
      case (TUnion args)
      with ok have "get_union_schema (get_field_schema n cls) args d a st = Ok (s, st')" by simp
      from get_union_schema_ok [OF Suc this] show ?thesis by (simp add: TUnion)
    next
      case (TAnnotated base payloads)
      with ok have "get_field_schema n cls base d (hd payloads) st = Ok (s, st')"
        by (simp add: get_annotated_schema_def split: if_splits)
      from gfs_okD [OF Suc this] show ?thesis by (simp add: TAnnotated call_ok_def)
    next
      case (TDict args)
      with ok have "get_dict_schema (get_field_schema n cls) args a st = Ok (s, st')" by simp
      from get_dict_schema_ok [OF Suc this] show ?thesis by (simp add: TDict)
    next
      case (TList args)
      with ok have "get_list_schema (get_field_schema n cls) args a st = Ok (s, st')" by simp
      from get_list_schema_ok [OF Suc this] show ?thesis by (simp add: TList)
    next
      case (TTuple args)
      with ok have "get_tuple_schema (get_field_schema n cls) args d a st = Ok (s, st')" by simp
      from get_tuple_schema_ok [OF Suc this] show ?thesis by (simp add: TTuple)
    next
      case (TSet args)
      with ok have "get_set_schema (get_field_schema n cls) args a st = Ok (s, st')" by simp
      from get_set_schema_ok [OF Suc this] show ?thesis by (simp add: TSet)
    next
      case (TEnum name number members)
      show ?thesis
      proof (cases number)
        case True
        with ok TEnum show ?thesis
          by (auto simp: get_number_schema_def call_ok_def step_ok_refl)
      next
        case False
        with ok TEnum have "get_enum_schema name members d a st = Ok (s, st')" by simp
        from get_enum_schema_ok [OF this] show ?thesis by (simp add: TEnum False)
      qed
    qed (use ok in \<open>auto simp: get_literal_schema_def get_none_schema_def get_str_schema_def
           get_bool_schema_def get_int_schema_def get_number_schema_def get_date_schema_def
           get_datetime_schema_def Let_def call_ok_def step_ok_refl\<close>)
  qed
qed

section \<open>The document in closed form\<close>

lemma entries_okD:
  "entries_ok cls r ds \<Longrightarrow> (k, v) \<in> set ds \<Longrightarrow>
   enum_entry k v \<or> class_entry cls r (set (dict_keys ds)) k v"
  unfolding entries_ok_def by force



lemma get_schema_spec:
  assumes "get_schema fuel cls r = Ok doc"
  obtains rdc ds where
    "cls r = Some rdc"
    "doc = dict_merge [(''$schema'', PStr ''https://json-schema.org/draft/2020-12/schema'')]
             (if ds \<noteq> [] then dict_set (spec_object cls r rdc) ''$defs'' (PDict ds)
              else spec_object cls r rdc)"
    "dict_get doc ''$defs'' = (if ds = [] then None else Some (PDict ds))"
    "\<forall>k. k \<noteq> ''$schema'' \<and> k \<noteq> ''$defs'' \<longrightarrow>
       dict_get doc k = dict_get (spec_object cls r rdc) k"
    "distinct (dict_keys ds)"
    "entries_ok cls r ds"
    "\<forall>f\<in>set (dc_fields rdc). set (named_refs cls r (field_type f)) \<subseteq> set (dict_keys ds)"
proof -
  let ?st0 = "\<lparr>root = r, seen_root = True, defs = []\<rparr>"
  from assms obtain d s st where
    d: "cls r = Some d" and
    create: "create_dc_schema (get_field_schema fuel cls) d ?st0 = Ok (s, st)" and
    call: "get_dc_schema (get_field_schema fuel cls) cls r SchemaAnnotation
       \<lparr>root = r, seen_root = False, defs = []\<rparr> = Ok (s, st)" and
    a: "dict_get doc ''$schema'' = Some (PStr ''https://json-schema.org/draft/2020-12/schema'')" and
    b: "\<forall>k. k \<noteq> ''$schema'' \<and> k \<noteq> ''$defs'' \<longrightarrow> dict_get doc k = dict_get s k" and
    c: "dict_get doc ''$defs'' = (if defs st = [] then None else Some (PDict (defs st)))"
    by (rule get_schema_Ok)
  note ok = create_dc_schema_ok [OF get_field_schema_ok create]
  from ok(3) have s: "s = spec_object cls r d" by simp
  from ok(1) have dist: "distinct (dict_keys (defs st))"
    by (simp add: step_ok_def dict_keys_Nil)
  from ok(1) have ent: "entries_ok cls r (defs st)"
    by (simp add: step_ok_def entries_ok_def)
  from ok(2) have refs: "\<forall>f\<in>set (dc_fields d).
      set (named_refs cls r (field_type f)) \<subseteq> set (dict_keys (defs st))"
    by simp
  from assms call have doc: "doc =
      dict_merge [(''$schema'', PStr ''https://json-schema.org/draft/2020-12/schema'')]
        (if defs st \<noteq> [] then dict_set (spec_object cls r d) ''$defs'' (PDict (defs st))
         else spec_object cls r d)"
    by (auto simp: get_schema_def Let_def s)
  from b have b': "\<forall>k. k \<noteq> ''$schema'' \<and> k \<noteq> ''$defs'' \<longrightarrow>
       dict_get doc k = dict_get (spec_object cls r d) k"
    by (simp add: s)
  from that [OF d doc c b' dist ent refs] show ?thesis .
qed

lemma root_reference:
  assumes "cls (root st) = Some rdc" and "seen_root st"
  shows "get_field_schema (Suc n) cls (TDataclass (root st)) dflt ann st
           = Ok (dict_merge (ref_fragment ''#'') (schema ann), st)"
  using assms by (simp add: get_dc_schema_def)

lemma root_reference_nested:
  assumes "cls (root st) = Some rdc" and "seen_root st"
  shows "get_field_schema (Suc (Suc n)) cls (TAnnotated (TDataclass (root st)) [a]) dflt ann st
           = Ok (dict_merge (ref_fragment ''#'') (schema a), st)"
    and "get_field_schema (Suc (Suc n)) cls (TList [TDataclass (root st)]) dflt ann st
           = Ok (dict_merge [(''type'', PStr ''array''), (''items'', PDict (ref_fragment ''#''))]
                   (schema ann), st)"
    and "get_field_schema (Suc (Suc n)) cls (TSet [TDataclass (root st)]) dflt ann st
           = Ok (dict_merge [(''type'', PStr ''array''), (''items'', PDict (ref_fragment ''#'')),
                             (''uniqueItems'', PBool True)] (schema ann), st)"
    and "get_field_schema (Suc (Suc n)) cls (TDict [TStr, TDataclass (root st)]) dflt ann st
           = Ok (dict_merge [(''type'', PStr ''object''),
                             (''additionalProperties'', PDict (ref_fragment ''#''))]
                   (schema ann), st)"
    and "get_field_schema (Suc (Suc n)) cls (TTuple [TDataclass (root st), TEllipsis]) MISSING ann st
           = Ok (dict_merge [(''type'', PStr ''array''), (''items'', PDict (ref_fragment ''#''))]
                   (schema ann), st)"
    and "get_field_schema (Suc (Suc n)) cls (TUnion [TDataclass (root st), TNone]) dflt ann st
           = Ok (dict_merge
                   (dict_merge [(''anyOf'', PList [PDict (ref_fragment ''#''),
                                                   PDict [(''type'', PStr ''null'')]])]
                      (default_entry dflt))
                   (schema ann), st)"
proof -
  have inner: "get_field_schema (Suc n) cls (TDataclass (root st)) MISSING SchemaAnnotation st
      = Ok (ref_fragment ''#'', st)"
    using root_reference [of cls st rdc n MISSING SchemaAnnotation, OF assms] by (simp add: schema_empty)
  have payload: "get_field_schema (Suc n) cls (TDataclass (root st)) dflt a st
      = Ok (dict_merge (ref_fragment ''#'') (schema a), st)"
    by (rule root_reference [of cls st rdc, OF assms])
  show "get_field_schema (Suc (Suc n)) cls (TAnnotated (TDataclass (root st)) [a]) dflt ann st
           = Ok (dict_merge (ref_fragment ''#'') (schema a), st)"
    by (subst get_field_schema.simps(2))
       (simp add: get_annotated_schema_def payload del: get_field_schema.simps(2))
  show "get_field_schema (Suc (Suc n)) cls (TList [TDataclass (root st)]) dflt ann st
           = Ok (dict_merge [(''type'', PStr ''array''), (''items'', PDict (ref_fragment ''#''))]
                   (schema ann), st)"
    by (subst get_field_schema.simps(2)) (simp add: get_list_schema_def inner del: get_field_schema.simps(2))
  show "get_field_schema (Suc (Suc n)) cls (TSet [TDataclass (root st)]) dflt ann st
           = Ok (dict_merge [(''type'', PStr ''array''), (''items'', PDict (ref_fragment ''#'')),
                             (''uniqueItems'', PBool True)] (schema ann), st)"
    by (subst get_field_schema.simps(2)) (simp add: get_set_schema_def inner del: get_field_schema.simps(2))
  show "get_field_schema (Suc (Suc n)) cls (TDict [TStr, TDataclass (root st)]) dflt ann st
           = Ok (dict_merge [(''type'', PStr ''object''),
                             (''additionalProperties'', PDict (ref_fragment ''#''))]
                   (schema ann), st)"
    by (subst get_field_schema.simps(2)) (simp add: get_dict_schema_def inner del: get_field_schema.simps(2))
  show "get_field_schema (Suc (Suc n)) cls (TTuple [TDataclass (root st), TEllipsis]) MISSING ann st
           = Ok (dict_merge [(''type'', PStr ''array''), (''items'', PDict (ref_fragment ''#''))]
                   (schema ann), st)"
    by (subst get_field_schema.simps(2)) (simp add: get_tuple_schema_def inner del: get_field_schema.simps(2))
  have none: "get_field_schema (Suc n) cls TNone MISSING SchemaAnnotation st
      = Ok ([(''type'', PStr ''null'')], st)"
    by (simp add: get_none_schema_def schema_empty)
  show "get_field_schema (Suc (Suc n)) cls (TUnion [TDataclass (root st), TNone]) dflt ann st
           = Ok (dict_merge
                   (dict_merge [(''anyOf'', PList [PDict (ref_fragment ''#''),
                                                   PDict [(''type'', PStr ''null'')]])]
                      (default_entry dflt))
                   (schema ann), st)"
    by (subst get_field_schema.simps(2))
       (simp add: get_union_schema_def inner none del: get_field_schema.simps(2))
qed

section \<open>Mapping keys\<close>



section \<open>References to the root\<close>

text \<open>
  C3, as claimed: for every class handed to \<open>get_schema\<close> the first occurrence is
  emitted inline. \<open>Holder\<close> refers to itself and has a field of type \<open>bytes\<close>, which
  \<open>get_field_schema\<close> does not implement: \<open>get_schema\<close> raises and nothing is
  emitted.
\<close>

theorem root_is_inline_then_hash_counterexample:
  "get_schema 3 holder_classes 0 = Raise NotImplementedError"
  by code_simp

text \<open>
  C3, amended: for every class \<open>r\<close> for which \<open>get_schema\<close> returns a document. The
  document is \<open>"$schema"\<close> followed by the object fragment of \<open>r\<close>, inline, and by
  \<open>"$defs"\<close> when there are definitions. The object fragment is the closed form, in
  which every reference to \<open>r\<close>, direct or inside a container, is
  \<open>{"allOf": [{"$ref": "#"}]}\<close> with the metadata of the reference spread in. Every
  entry of \<open>"$defs"\<close> is the definition of an enumeration or the object fragment of a
  class other than \<open>r\<close>: none was made for \<open>r\<close>. Whatever becomes of the whole
  compilation, once the root has been seen a call that returns returns the closed form
  and leaves the root and its flag as they are; and a reference to the root (direct,
  with metadata, or inside a list, a set, a mapping, a variable-length tuple or a union)
  returns its fragment and leaves the session unchanged.
\<close>

theorem root_is_inline_then_hash:
  "(get_schema fuel cls r = Ok doc \<longrightarrow>
      (\<exists>rdc ds. cls r = Some rdc
         \<and> doc = dict_merge [(''$schema'', PStr ''https://json-schema.org/draft/2020-12/schema'')]
                   (if ds \<noteq> [] then dict_set (spec_object cls r rdc) ''$defs'' (PDict ds)
                    else spec_object cls r rdc)
         \<and> dict_get doc ''$defs'' = (if ds = [] then None else Some (PDict ds))
         \<and> (\<forall>k v. (k, v) \<in> set ds \<longrightarrow>
               enum_entry k v \<or> (\<exists>c d. cls c = Some d \<and> c \<noteq> r \<and> dc_name d = k
                                       \<and> v = PDict (spec_object cls r d)))))
   \<and> (root st = r \<and> seen_root st \<and> get_field_schema m cls ty dflt ann st = Ok (s, st') \<longrightarrow>
        s = spec_fragment cls r ty dflt ann \<and> root st' = r \<and> seen_root st')
   \<and> spec_fragment cls r (TDataclass r) dflt ann = dict_merge (ref_fragment ''#'') (schema ann)
   \<and> (cls r = Some rdc \<and> root st = r \<and> seen_root st \<longrightarrow>
        get_field_schema (Suc n) cls (TDataclass r) dflt ann st
          = Ok (dict_merge (ref_fragment ''#'') (schema ann), st)
      \<and> get_field_schema (Suc (Suc n)) cls (TAnnotated (TDataclass r) [a]) dflt ann st
          = Ok (dict_merge (ref_fragment ''#'') (schema a), st)
      \<and> get_field_schema (Suc (Suc n)) cls (TList [TDataclass r]) dflt ann st
          = Ok (dict_merge [(''type'', PStr ''array''), (''items'', PDict (ref_fragment ''#''))]
                  (schema ann), st)
      \<and> get_field_schema (Suc (Suc n)) cls (TSet [TDataclass r]) dflt ann st
          = Ok (dict_merge [(''type'', PStr ''array''), (''items'', PDict (ref_fragment ''#'')),
                            (''uniqueItems'', PBool True)] (schema ann), st)
      \<and> get_field_schema (Suc (Suc n)) cls (TDict [TStr, TDataclass r]) dflt ann st
          = Ok (dict_merge [(''type'', PStr ''object''),
                            (''additionalProperties'', PDict (ref_fragment ''#''))]
                  (schema ann), st)
      \<and> get_field_schema (Suc (Suc n)) cls (TTuple [TDataclass r, TEllipsis]) MISSING ann st
          = Ok (dict_merge [(''type'', PStr ''array''), (''items'', PDict (ref_fragment ''#''))]
                  (schema ann), st)
      \<and> get_field_schema (Suc (Suc n)) cls (TUnion [TDataclass r, TNone]) dflt ann st
          = Ok (dict_merge
                  (dict_merge [(''anyOf'', PList [PDict (ref_fragment ''#''),
                                                  PDict [(''type'', PStr ''null'')]])]
                     (default_entry dflt))
                  (schema ann), st))"
proof (intro conjI impI)
  assume "get_schema fuel cls r = Ok doc"
  then obtain rdc ds where
    rdc: "cls r = Some rdc" and
    doc: "doc = dict_merge [(''$schema'', PStr ''https://json-schema.org/draft/2020-12/schema'')]
             (if ds \<noteq> [] then dict_set (spec_object cls r rdc) ''$defs'' (PDict ds)
              else spec_object cls r rdc)" and
    dfs: "dict_get doc ''$defs'' = (if ds = [] then None else Some (PDict ds))" and
    "\<forall>k. k \<noteq> ''$schema'' \<and> k \<noteq> ''$defs'' \<longrightarrow>
       dict_get doc k = dict_get (spec_object cls r rdc) k" and
    "distinct (dict_keys ds)" and
    ent: "entries_ok cls r ds" and
    "\<forall>f\<in>set (dc_fields rdc). set (named_refs cls r (field_type f)) \<subseteq> set (dict_keys ds)"
    by (rule get_schema_spec)
  have prov: "enum_entry k v \<or> (\<exists>c d. cls c = Some d \<and> c \<noteq> r \<and> dc_name d = k
                                   \<and> v = PDict (spec_object cls r d))"
    if "(k, v) \<in> set ds" for k v
    using entries_okD [OF ent that] unfolding class_entry_def by blast
  from rdc doc dfs prov
  show "\<exists>rdc ds. cls r = Some rdc
         \<and> doc = dict_merge [(''$schema'', PStr ''https://json-schema.org/draft/2020-12/schema'')]
                   (if ds \<noteq> [] then dict_set (spec_object cls r rdc) ''$defs'' (PDict ds)
                    else spec_object cls r rdc)
         \<and> dict_get doc ''$defs'' = (if ds = [] then None else Some (PDict ds))
         \<and> (\<forall>k v. (k, v) \<in> set ds \<longrightarrow>
               enum_entry k v \<or> (\<exists>c d. cls c = Some d \<and> c \<noteq> r \<and> dc_name d = k
                                       \<and> v = PDict (spec_object cls r d)))"
    by (intro exI [of _ rdc] exI [of _ ds] conjI allI impI) blast+
next
  assume a: "root st = r \<and> seen_root st \<and> get_field_schema m cls ty dflt ann st = Ok (s, st')"
  then have rt: "root st = r" and sn: "seen_root st"
    and call: "get_field_schema m cls ty dflt ann st = Ok (s, st')"
    by blast+
  note g = gfs_okD [OF get_field_schema_ok call]
  from g(3) [OF sn] rt show "s = spec_fragment cls r ty dflt ann" by simp
  from rt step_ok_root [OF g(1)] show "root st' = r" by simp
  from step_ok_seen_root [OF g(1) sn] show "seen_root st'" .
next
  show "spec_fragment cls r (TDataclass r) dflt ann = dict_merge (ref_fragment ''#'') (schema ann)"
    by simp
next
  assume a: "cls r = Some rdc \<and> root st = r \<and> seen_root st"
  then have rt: "r = root st" and sn: "seen_root st" and rdc: "cls (root st) = Some rdc"
    by auto
  note R = root_reference [of cls st rdc, OF rdc sn] root_reference_nested [of cls st rdc, OF rdc sn]
  show "get_field_schema (Suc n) cls (TDataclass r) dflt ann st
          = Ok (dict_merge (ref_fragment ''#'') (schema ann), st)"
    unfolding rt by (rule R)
  show "get_field_schema (Suc (Suc n)) cls (TAnnotated (TDataclass r) [a]) dflt ann st
          = Ok (dict_merge (ref_fragment ''#'') (schema a), st)"
    unfolding rt by (rule R)
  show "get_field_schema (Suc (Suc n)) cls (TList [TDataclass r]) dflt ann st
          = Ok (dict_merge [(''type'', PStr ''array''), (''items'', PDict (ref_fragment ''#''))]
                  (schema ann), st)"
    unfolding rt by (rule R)
  show "get_field_schema (Suc (Suc n)) cls (TSet [TDataclass r]) dflt ann st
          = Ok (dict_merge [(''type'', PStr ''array''), (''items'', PDict (ref_fragment ''#'')),
                            (''uniqueItems'', PBool True)] (schema ann), st)"
    unfolding rt by (rule R)
  show "get_field_schema (Suc (Suc n)) cls (TDict [TStr, TDataclass r]) dflt ann st
          = Ok (dict_merge [(''type'', PStr ''object''),
                            (''additionalProperties'', PDict (ref_fragment ''#''))]
                  (schema ann), st)"
    unfolding rt by (rule R)
  show "get_field_schema (Suc (Suc n)) cls (TTuple [TDataclass r, TEllipsis]) MISSING ann st
          = Ok (dict_merge [(''type'', PStr ''array''), (''items'', PDict (ref_fragment ''#''))]
                  (schema ann), st)"
    unfolding rt by (rule R)
  show "get_field_schema (Suc (Suc n)) cls (TUnion [TDataclass r, TNone]) dflt ann st
          = Ok (dict_merge
                  (dict_merge [(''anyOf'', PList [PDict (ref_fragment ''#''),
                                                  PDict [(''type'', PStr ''null'')]])]
                     (default_entry dflt))
                  (schema ann), st)"
    unfolding rt by (rule R)
qed

theorem root_is_inline_then_hash_witness:
  "get_schema 3 folder_classes 0 =
     Ok [(''$schema'', PStr ''https://json-schema.org/draft/2020-12/schema''),
         (''type'', PStr ''object''), (''title'', PStr ''Folder''),
         (''properties'', PDict
            [(''parent'', PDict [(''anyOf'', PList
                [PDict [(''allOf'', PList [PDict [(''$ref'', PStr ''#'')]])],
                 PDict [(''type'', PStr ''null'')]])]),
             (''children'', PDict [(''type'', PStr ''array''),
                (''items'', PDict [(''allOf'', PList [PDict [(''$ref'', PStr ''#'')]])])]),
             (''by_name'', PDict [(''type'', PStr ''object''),
                (''additionalProperties'',
                 PDict [(''allOf'', PList [PDict [(''$ref'', PStr ''#'')]])])]),
             (''shortcut'', PDict [(''allOf'', PList [PDict [(''$ref'', PStr ''#'')]]),
                                   (''title'', PStr ''Shortcut'')]),
             (''index'', PDict [(''allOf'', PList [PDict [(''$ref'', PStr ''#/$defs/Leaf'')]])])]),
         (''required'', PList [PStr ''parent'', PStr ''children'', PStr ''by_name'',
                               PStr ''shortcut'', PStr ''index'']),
         (''$defs'', PDict
            [(''Leaf'', PDict [(''type'', PStr ''object''), (''title'', PStr ''Leaf''),
                (''properties'', PDict [(''c'', PDict [(''type'', PStr ''string'')])]),
                (''required'', PList [PStr ''c''])])])]
   \<and> (\<exists>c d. folder_classes c = Some d \<and> c \<noteq> 0 \<and> dc_name d = ''Leaf''
          \<and> PDict [(''type'', PStr ''object''), (''title'', PStr ''Leaf''),
                (''properties'', PDict [(''c'', PDict [(''type'', PStr ''string'')])]),
                (''required'', PList [PStr ''c''])] = PDict (spec_object folder_classes 0 d))
   \<and> get_field_schema (Suc (Suc 0)) folder_classes (TSet [TDataclass 0]) MISSING SchemaAnnotation
        \<lparr>root = 0, seen_root = True, defs = []\<rparr>
      = Ok ([(''type'', PStr ''array''),
             (''items'', PDict [(''allOf'', PList [PDict [(''$ref'', PStr ''#'')]])]),
             (''uniqueItems'', PBool True)], \<lparr>root = 0, seen_root = True, defs = []\<rparr>)
   \<and> spec_fragment folder_classes 0 (TList [TList [TDataclass 0]]) MISSING SchemaAnnotation
      = [(''type'', PStr ''array''),
         (''items'', PDict [(''type'', PStr ''array''),
            (''items'', PDict [(''allOf'', PList [PDict [(''$ref'', PStr ''#'')]])])])]"
proof -
  let ?leaf = "PDict [(''type'', PStr ''object''), (''title'', PStr ''Leaf''),
                (''properties'', PDict [(''c'', PDict [(''type'', PStr ''string'')])]),
                (''required'', PList [PStr ''c''])]"
  let ?doc = "[(''$schema'', PStr ''https://json-schema.org/draft/2020-12/schema''),
         (''type'', PStr ''object''), (''title'', PStr ''Folder''),
         (''properties'', PDict
            [(''parent'', PDict [(''anyOf'', PList
                [PDict [(''allOf'', PList [PDict [(''$ref'', PStr ''#'')]])],
                 PDict [(''type'', PStr ''null'')]])]),
             (''children'', PDict [(''type'', PStr ''array''),
                (''items'', PDict [(''allOf'', PList [PDict [(''$ref'', PStr ''#'')]])])]),
             (''by_name'', PDict [(''type'', PStr ''object''),
                (''additionalProperties'',
                 PDict [(''allOf'', PList [PDict [(''$ref'', PStr ''#'')]])])]),
             (''shortcut'', PDict [(''allOf'', PList [PDict [(''$ref'', PStr ''#'')]]),
                                   (''title'', PStr ''Shortcut'')]),
             (''index'', PDict [(''allOf'', PList [PDict [(''$ref'', PStr ''#/$defs/Leaf'')]])])]),
         (''required'', PList [PStr ''parent'', PStr ''children'', PStr ''by_name'',
                               PStr ''shortcut'', PStr ''index'']),
         (''$defs'', PDict [(''Leaf'', ?leaf)])]"
  let ?st = "\<lparr>root = 0, seen_root = True, defs = []\<rparr>"
  let ?nested = "[(''type'', PStr ''array''),
         (''items'', PDict [(''type'', PStr ''array''),
            (''items'', PDict [(''allOf'', PList [PDict [(''$ref'', PStr ''#'')]])])])]"
  have h: "get_schema 3 folder_classes 0 = Ok ?doc"
    by code_simp
  have call: "get_field_schema 3 folder_classes (TList [TList [TDataclass 0]]) MISSING
      SchemaAnnotation ?st = Ok (?nested, ?st)"
    by code_simp
  have dd: "dict_get ?doc ''$defs'' = Some (PDict [(''Leaf'', ?leaf)])"
    by (simp add: dict_get_def)
  note T = root_is_inline_then_hash [where fuel = 3 and cls = folder_classes and r = 0
      and doc = ?doc and st = ?st and m = 3 and ty = "TList [TList [TDataclass 0]]"
      and dflt = MISSING and ann = SchemaAnnotation and s = ?nested and st' = ?st
      and rdc = Folder and n = 0]
  have c: "folder_classes 0 = Some Folder" by (simp add: folder_classes_def)
  have p: "root ?st = 0" "seen_root ?st" by simp_all
  from T h obtain rdc ds where
    all: "folder_classes 0 = Some rdc
     \<and> dict_get ?doc ''$defs'' = (if ds = [] then None else Some (PDict ds))
     \<and> (\<forall>k v. (k, v) \<in> set ds \<longrightarrow>
           enum_entry k v \<or> (\<exists>c d. folder_classes c = Some d \<and> c \<noteq> 0 \<and> dc_name d = k
                                   \<and> v = PDict (spec_object folder_classes 0 d)))"
    by blast
  from all have dfs: "dict_get ?doc ''$defs'' = (if ds = [] then None else Some (PDict ds))"
    by blast
  with dd have ds: "ds = [(''Leaf'', ?leaf)]" by (auto split: if_splits)
  from all have prov: "\<forall>k v. (k, v) \<in> set ds \<longrightarrow>
           enum_entry k v \<or> (\<exists>c d. folder_classes c = Some d \<and> c \<noteq> 0 \<and> dc_name d = k
                                   \<and> v = PDict (spec_object folder_classes 0 d))"
    by blast
  have "\<not> enum_entry ''Leaf'' ?leaf" by (simp add: enum_entry_def)
  with prov ds have A: "\<exists>c d. folder_classes c = Some d \<and> c \<noteq> 0 \<and> dc_name d = ''Leaf''
          \<and> ?leaf = PDict (spec_object folder_classes 0 d)"
    by simp
  from T c p have "get_field_schema (Suc (Suc 0)) folder_classes (TSet [TDataclass 0]) MISSING
      SchemaAnnotation ?st
      = Ok (dict_merge [(''type'', PStr ''array''), (''items'', PDict (ref_fragment ''#'')),
                        (''uniqueItems'', PBool True)] (schema SchemaAnnotation), ?st)"
    by blast
  then have B: "get_field_schema (Suc (Suc 0)) folder_classes (TSet [TDataclass 0]) MISSING
      SchemaAnnotation ?st
      = Ok ([(''type'', PStr ''array''),
             (''items'', PDict [(''allOf'', PList [PDict [(''$ref'', PStr ''#'')]])]),
             (''uniqueItems'', PBool True)], ?st)"
    by (simp add: schema_empty ref_fragment_def)
  from T p call have "?nested = spec_fragment folder_classes 0 (TList [TList [TDataclass 0]])
      MISSING SchemaAnnotation"
    by blast
  then have C: "spec_fragment folder_classes 0 (TList [TList [TDataclass 0]]) MISSING
      SchemaAnnotation = ?nested"
    by (rule sym)
  from h A B C show ?thesis by blast
qed

section \<open>Named types are registered once\<close>




end
